theory Spec2Isabelle
  imports Main "HOL-Library.AList"
begin

section \<open>Strings and the regular expressions of \<^verbatim>\<open>src/rules/expect.ts\<close>\<close>

text \<open>
  A JavaScript string is modelled as a \<^typ>\<open>string\<close>; one \<^typ>\<open>char\<close> stands for one
  UTF-16 code unit below 256.  The regular expressions of the source are written out as
  the functions they compute.
\<close>

definition isWordChar :: "char \<Rightarrow> bool" where
  \<comment> \<open>the class \<^verbatim>\<open>\w\<close>, that is \<^verbatim>\<open>[A-Za-z0-9_]\<close>\<close>
  "isWordChar c =
     (let n = (of_char c :: nat)
      in (48 \<le> n \<and> n \<le> 57) \<or> (65 \<le> n \<and> n \<le> 90) \<or> (97 \<le> n \<and> n \<le> 122) \<or> n = 95)"

definition wordBoundary :: "string \<Rightarrow> nat \<Rightarrow> bool" where
  \<comment> \<open>the assertion \<^verbatim>\<open>\b\<close> at index \<open>p\<close>: exactly one side is a word character\<close>
  "wordBoundary s p =
     ((0 < p \<and> p \<le> length s \<and> isWordChar (s ! (p - 1))) \<noteq> (p < length s \<and> isWordChar (s ! p)))"

definition matchesAt :: "string \<Rightarrow> nat \<Rightarrow> string \<Rightarrow> bool" where
  \<comment> \<open>the literal \<open>lit\<close> occurs in \<open>s\<close> at index \<open>p\<close>\<close>
  "matchesAt s p lit = (take (length lit) (drop p s) = lit)"

definition testReadonlyWord :: "string \<Rightarrow> bool" where
  \<comment> \<open>\<^verbatim>\<open>/\breadonly\b/.test(s)\<close>\<close>
  "testReadonlyWord s =
     list_ex (\<lambda>p. wordBoundary s p \<and> matchesAt s p ''readonly'' \<and> wordBoundary s (p + 8))
       [0..<Suc (length s)]"

definition testReadonlyArrayWord :: "string \<Rightarrow> bool" where
  \<comment> \<open>\<^verbatim>\<open>/\bReadonlyArray\b/.test(s)\<close>\<close>
  "testReadonlyArrayWord s =
     list_ex (\<lambda>p. wordBoundary s p \<and> matchesAt s p ''ReadonlyArray'' \<and> wordBoundary s (p + 13))
       [0..<Suc (length s)]"

definition readonlyArrayRegExp :: "string \<Rightarrow> nat \<Rightarrow> bool" where
  \<comment> \<open>the sticky \<^verbatim>\<open>/\bReadonlyArray</y\<close> tested with \<^verbatim>\<open>lastIndex\<close> set to \<open>p\<close>\<close>
  "readonlyArrayRegExp s p = (p \<le> length s \<and> wordBoundary s p \<and> matchesAt s p ''ReadonlyArray<'')"

definition readonlyModifierRegExp :: "string \<Rightarrow> nat \<Rightarrow> bool" where
  \<comment> \<open>the sticky \<^verbatim>\<open>/\breadonly /y\<close> tested with \<^verbatim>\<open>lastIndex\<close> set to \<open>p\<close>\<close>
  "readonlyModifierRegExp s p = (p \<le> length s \<and> wordBoundary s p \<and> matchesAt s p ''readonly '')"

section \<open>The equivalence matchers\<close>

text \<open>
  The \<^verbatim>\<open>while\<close> loop of \<^verbatim>\<open>matchReadonlyArray\<close>, with its three variables as arguments.
  Every iteration that continues advances \<open>expectedPos\<close>.
\<close>

function matchReadonlyArrayLoop :: "string \<Rightarrow> string \<Rightarrow> nat \<Rightarrow> nat \<Rightarrow> nat \<Rightarrow> bool" where
  "matchReadonlyArrayLoop actual expected expectedPos actualPos depth =
     (if expectedPos < length expected \<and> actualPos < length actual then
        if expected ! expectedPos = actual ! actualPos then
          matchReadonlyArrayLoop actual expected (expectedPos + 1) (actualPos + 1) depth
        else if depth > 0 \<and> expected ! expectedPos = CHR ''>'' \<and> actual ! actualPos = CHR ''[''
                \<and> actualPos < length actual - 1 \<and> actual ! (actualPos + 1) = CHR '']'' then
          matchReadonlyArrayLoop actual expected (expectedPos + 1) (actualPos + 2) (depth - 1)
        else if readonlyArrayRegExp expected expectedPos \<and> readonlyModifierRegExp actual actualPos then
          matchReadonlyArrayLoop actual expected (expectedPos + 14) (actualPos + 9) (depth + 1)
        else False
      else True)"
  by pat_completeness auto
termination
  by (relation "measure (\<lambda>(actual, expected, expectedPos, actualPos, depth). length expected - expectedPos)")
     auto

declare matchReadonlyArrayLoop.simps [simp del]

definition matchReadonlyArray :: "string \<Rightarrow> string \<Rightarrow> bool" where
  "matchReadonlyArray actual expected =
     (if \<not> (testReadonlyWord actual \<and> testReadonlyArrayWord expected) then False
      else matchReadonlyArrayLoop actual expected 0 0 0)"

definition isNewlineOrSpace :: "char \<Rightarrow> bool" where
  \<comment> \<open>the class \<^verbatim>\<open>[\n ]\<close>\<close>
  "isNewlineOrSpace c = (c = CHR 0x0A \<or> c = CHR '' '')"

function collapseWhitespace :: "string \<Rightarrow> string" where
  \<comment> \<open>\<^verbatim>\<open>s.replace(/[\n ]+/g, ' ')\<close>: every maximal run becomes one space\<close>
  "collapseWhitespace [] = []"
| "collapseWhitespace (c # cs) =
     (if isNewlineOrSpace c then CHR '' '' # collapseWhitespace (dropWhile isNewlineOrSpace cs)
      else c # collapseWhitespace cs)"
  by pat_completeness auto
termination
  by (relation "measure length") (auto simp: less_Suc_eq_le length_dropWhile_le)

definition isTrimmed :: "char \<Rightarrow> bool" where
  \<comment> \<open>the white space and line terminators that \<^verbatim>\<open>String.prototype.trim\<close> removes,
      among the code units below 256\<close>
  "isTrimmed c = ((of_char c :: nat) \<in> {9, 10, 11, 12, 13, 32, 160})"

definition trim :: "string \<Rightarrow> string" where
  "trim s = rev (dropWhile isTrimmed (rev (dropWhile isTrimmed s)))"

definition matchModuloWhitespace :: "string \<Rightarrow> string \<Rightarrow> bool" where
  "matchModuloWhitespace actual expected =
     (let normActual = trim (collapseWhitespace actual);
          normExpected = trim (collapseWhitespace expected)
      in normActual = normExpected)"

section \<open>The snapshot fix of \<^verbatim>\<open>validate\<close>\<close>

record options =
  disableExpectTypeSnapshotFix :: bool

text \<open>
  The snapshot store is observed through the calls made to \<^verbatim>\<open>updateTypeSnapshot\<close>:
  the state of the store is the sequence of the writes it has received, each with the file
  name, the snapshot name and the value written.
\<close>

type_synonym snapshotWrites = "(string \<times> string \<times> string) list"

definition updateTypeSnapshot :: "string \<Rightarrow> string \<Rightarrow> string \<Rightarrow> snapshotWrites \<Rightarrow> snapshotWrites" where
  \<comment> \<open>Modelled from the spec: \<^verbatim>\<open>utils/snapshot\<close> is not among the sources; the spec gives
      \<^verbatim>\<open>write(fileName, name, text) -> void\<close>.\<close>
  "updateTypeSnapshot fileName snapshotName actual store = store @ [(fileName, snapshotName, actual)]"

text \<open>
  The object returned by the closure \<^verbatim>\<open>fix\<close>: its range and the captured variable
  \<^verbatim>\<open>applied\<close>, which starts as \<^verbatim>\<open>false\<close>.
\<close>

record ruleFix =
  range :: "nat \<times> nat"
  applied :: bool

definition snapshotFix :: "nat \<Rightarrow> ruleFix" where
  "snapshotFix start = \<lparr>range = (start, start), applied = False\<rparr>"

definition getText ::
  "options \<Rightarrow> string \<Rightarrow> string \<Rightarrow> string \<Rightarrow> ruleFix \<times> snapshotWrites \<Rightarrow> string \<times> ruleFix \<times> snapshotWrites" where
  \<comment> \<open>the getter \<^verbatim>\<open>get text()\<close>: the value read, the object and the store afterwards\<close>
  "getText opts fileName snapshotName actual st =
     (case st of (fx, store) \<Rightarrow>
        if \<not> applied fx then
          ('''', fx\<lparr>applied := True\<rparr>,
           if \<not> disableExpectTypeSnapshotFix opts
           then updateTypeSnapshot fileName snapshotName actual store else store)
        else ('''', fx, store))"

fun readTexts ::
  "options \<Rightarrow> string \<Rightarrow> string \<Rightarrow> string \<Rightarrow> nat \<Rightarrow> ruleFix \<times> snapshotWrites \<Rightarrow> string list \<times> ruleFix \<times> snapshotWrites" where
  \<comment> \<open>the property \<^verbatim>\<open>text\<close> read \<open>n\<close> times in a row\<close>
  "readTexts opts fileName snapshotName actual 0 st = ([], st)"
| "readTexts opts fileName snapshotName actual (Suc n) st =
     (case getText opts fileName snapshotName actual st of
        (t, st') \<Rightarrow>
          (case readTexts opts fileName snapshotName actual n st' of
             (ts, st'') \<Rightarrow> (t # ts, st'')))"

section \<open>Syntax trees\<close>

text \<open>
  A node of the TypeScript syntax tree, with the position \<^verbatim>\<open>getStart()\<close> and the position
  \<^verbatim>\<open>getEnd()\<close>.  The kinds that the rule tells apart have a constructor each; every
  other kind is an \<open>OtherNode\<close> with the number of its kind and the children that
  \<^verbatim>\<open>ts.forEachChild\<close> visits, in that order.
  \<^item> \<open>ExpressionStatement start end expression\<close>
  \<^item> \<open>VariableStatement start end modifiers declarationList\<close>
  \<^item> \<open>VariableDeclarationList start end declarations\<close>
  \<^item> \<open>VariableDeclaration start end before initializer\<close>, where \<open>before\<close> are the children
    visited before the initializer (the name, the exclamation token, the type)
\<close>

datatype node =
    ExpressionStatement nat nat node
  | VariableStatement nat nat "node list" node
  | VariableDeclarationList nat nat "node list"
  | VariableDeclaration nat nat "node list" "node option"
  | OtherNode nat nat nat "node list"

fun getStart :: "node \<Rightarrow> nat" where
  "getStart (ExpressionStatement s e x) = s"
| "getStart (VariableStatement s e ms dl) = s"
| "getStart (VariableDeclarationList s e ds) = s"
| "getStart (VariableDeclaration s e bs i) = s"
| "getStart (OtherNode k s e cs) = s"

fun getEnd :: "node \<Rightarrow> nat" where
  "getEnd (ExpressionStatement s e x) = e"
| "getEnd (VariableStatement s e ms dl) = e"
| "getEnd (VariableDeclarationList s e ds) = e"
| "getEnd (VariableDeclaration s e bs i) = e"
| "getEnd (OtherNode k s e cs) = e"

fun forEachChild :: "node \<Rightarrow> node list" where
  \<comment> \<open>the children that \<^verbatim>\<open>ts.forEachChild\<close> passes to a callback that never returns a
      value, in the order of the calls\<close>
  "forEachChild (ExpressionStatement s e x) = [x]"
| "forEachChild (VariableStatement s e ms dl) = ms @ [dl]"
| "forEachChild (VariableDeclarationList s e ds) = ds"
| "forEachChild (VariableDeclaration s e bs i) = bs @ (case i of None \<Rightarrow> [] | Some x \<Rightarrow> [x])"
| "forEachChild (OtherNode k s e cs) = cs"

fun getNodeForExpectType :: "node \<Rightarrow> node" where
  "getNodeForExpectType (VariableStatement s e ms dl) =
     (case dl of
        VariableDeclarationList s' e' [VariableDeclaration s'' e'' bs (Some initializer)] \<Rightarrow> initializer
      | _ \<Rightarrow> VariableStatement s e ms dl)"
| "getNodeForExpectType n = n"

section \<open>Scanning comments\<close>

text \<open>
  A source file: its text, the result of \<^verbatim>\<open>getLineStarts()\<close>, and the nodes that
  \<^verbatim>\<open>ts.forEachChild\<close> visits for it (its statements and the end-of-file token).
\<close>

record sourceFile =
  sourceText :: string
  lineStarts :: "nat list"
  childNodes :: "node list"

definition isLineTerminator :: "char \<Rightarrow> bool" where
  \<comment> \<open>the characters that \<^verbatim>\<open>.\<close> does not match, among the code units below 256\<close>
  "isLineTerminator c = (c = CHR 0x0A \<or> c = CHR 0x0D)"

fun computeLineStartsFrom :: "nat \<Rightarrow> nat \<Rightarrow> string \<Rightarrow> nat list" where
  \<comment> \<open>TypeScript's \<^verbatim>\<open>computeLineStarts\<close>, the function behind \<^verbatim>\<open>getLineStarts\<close>:
      \<open>pos\<close> is the index of the next character, \<open>lineStart\<close> the start of the current line\<close>
  "computeLineStartsFrom pos lineStart [] = [lineStart]"
| "computeLineStartsFrom pos lineStart (c # cs) =
     (if c = CHR 0x0D then
        (case cs of
           d # ds \<Rightarrow>
             if d = CHR 0x0A then lineStart # computeLineStartsFrom (pos + 2) (pos + 2) ds
             else lineStart # computeLineStartsFrom (pos + 1) (pos + 1) cs
         | [] \<Rightarrow> lineStart # computeLineStartsFrom (pos + 1) (pos + 1) cs)
      else if c = CHR 0x0A then lineStart # computeLineStartsFrom (pos + 1) (pos + 1) cs
      else computeLineStartsFrom (pos + 1) lineStart cs)"

definition computeLineStarts :: "string \<Rightarrow> nat list" where
  "computeLineStarts s = computeLineStartsFrom 0 0 s"

definition createSourceFile :: "string \<Rightarrow> node list \<Rightarrow> sourceFile" where
  "createSourceFile s ns = \<lparr>sourceText = s, lineStarts = computeLineStarts s, childNodes = ns\<rparr>"

function findComment :: "string \<Rightarrow> nat \<Rightarrow> nat option" where
  \<comment> \<open>the first index at or after \<open>i\<close> where \<^verbatim>\<open>//\<close> starts\<close>
  "findComment s i =
     (if i + 1 < length s then
        if s ! i = CHR ''/'' \<and> s ! (i + 1) = CHR ''/'' then Some i else findComment s (i + 1)
      else None)"
  by pat_completeness auto
termination
  by (relation "measure (\<lambda>(s, i). length s - i)") auto

declare findComment.simps [simp del]

definition commentRegexpExec :: "string \<Rightarrow> nat \<Rightarrow> (nat \<times> string \<times> nat) option" where
  \<comment> \<open>\<^verbatim>\<open>/\/\/(.*)/g.exec(text)\<close> with \<^verbatim>\<open>lastIndex\<close> given: the index of the match, its
      group 1 and the new \<^verbatim>\<open>lastIndex\<close>\<close>
  "commentRegexpExec s lastIndex =
     (case findComment s lastIndex of
        None \<Rightarrow> None
      | Some i \<Rightarrow>
          let comment = takeWhile (\<lambda>c. \<not> isLineTerminator c) (drop (i + 2) s)
          in Some (i, comment, i + 2 + length comment))"

function isFirstOnLineFrom :: "string \<Rightarrow> nat \<Rightarrow> nat \<Rightarrow> bool" where
  \<comment> \<open>the \<^verbatim>\<open>for\<close> loop of \<^verbatim>\<open>isFirstOnLine\<close> from index \<open>i\<close>; a read past the end of the
      text gives \<^verbatim>\<open>undefined\<close>, which differs from a space\<close>
  "isFirstOnLineFrom s i pos =
     (if i < pos then
        if \<not> (i < length s \<and> s ! i = CHR '' '') then False else isFirstOnLineFrom s (i + 1) pos
      else True)"
  by pat_completeness auto
termination
  by (relation "measure (\<lambda>(s, i, pos). pos - i)") auto

declare isFirstOnLineFrom.simps [simp del]

definition isFirstOnLine :: "string \<Rightarrow> nat option \<Rightarrow> nat \<Rightarrow> bool" where
  \<comment> \<open>\<open>lineStart\<close> is \<open>None\<close> when the read of \<^verbatim>\<open>lineStarts\<close> gave \<^verbatim>\<open>undefined\<close>: then
      \<^verbatim>\<open>undefined < pos\<close> is false and the loop body never runs\<close>
  "isFirstOnLine s lineStart pos =
     (case lineStart of None \<Rightarrow> True | Some i \<Rightarrow> isFirstOnLineFrom s i pos)"

definition at :: "'a list \<Rightarrow> int \<Rightarrow> 'a option" where
  \<comment> \<open>an array read: \<open>None\<close> for \<^verbatim>\<open>undefined\<close>\<close>
  "at xs i = (if 0 \<le> i \<and> nat i < length xs then Some (xs ! nat i) else None)"

function advanceCurLine :: "nat list \<Rightarrow> nat \<Rightarrow> nat \<Rightarrow> nat" where
  \<comment> \<open>the \<^verbatim>\<open>while\<close> loop of \<^verbatim>\<open>getLine\<close>; \<^verbatim>\<open>undefined <= pos\<close> is false\<close>
  "advanceCurLine ls curLine pos =
     (if curLine + 1 < length ls \<and> ls ! (curLine + 1) \<le> pos then advanceCurLine ls (curLine + 1) pos
      else curLine)"
  by pat_completeness auto
termination
  by (relation "measure (\<lambda>(ls, curLine, pos). length ls - curLine)") auto

declare advanceCurLine.simps [simp del]

definition getLine :: "sourceFile \<Rightarrow> nat \<Rightarrow> nat \<Rightarrow> nat \<times> nat" where
  \<comment> \<open>the line the comment at \<open>pos\<close> applies to, and the new value of \<^verbatim>\<open>curLine\<close>\<close>
  "getLine sf curLine pos =
     (let curLine' = advanceCurLine (lineStarts sf) curLine pos
      in (if isFirstOnLine (sourceText sf) (at (lineStarts sf) (int curLine')) pos then curLine' + 1 else curLine',
          curLine'))"

section \<open>Building assertions\<close>

datatype directive = TypeSnapshot | Type | Error

definition matchDirectiveTail :: "string \<Rightarrow> string \<Rightarrow> string option option" where
  \<comment> \<open>one alternative of \<^verbatim>\<open>(TypeSnapshot|Type|Error)\<close> followed by \<^verbatim>\<open>( (.*))?$\<close>, tried on
      the text after \<^verbatim>\<open>$Expect\<close>: \<open>None\<close> when it fails, otherwise group 3, which is
      \<open>None\<close> for \<^verbatim>\<open>undefined\<close>\<close>
  "matchDirectiveTail kw r =
     (if take (length kw) r = kw then
        (case drop (length kw) r of
           [] \<Rightarrow> Some None
         | c # payload \<Rightarrow>
             if c = CHR '' '' \<and> \<not> list_ex isLineTerminator payload then Some (Some payload) else None)
      else None)"

definition matchExpect :: "string \<Rightarrow> (directive \<times> string option) option" where
  \<comment> \<open>\<^verbatim>\<open>/^ ?\$Expect(TypeSnapshot|Type|Error)( (.*))?$/.exec(comment)\<close>: groups 1 and 3\<close>
  "matchExpect comment =
     (let c = (case comment of x # r \<Rightarrow> if x = CHR '' '' then r else comment | [] \<Rightarrow> comment)
      in if take 7 c = ''$Expect'' then
           (case matchDirectiveTail ''TypeSnapshot'' (drop 7 c) of
              Some payload \<Rightarrow> Some (TypeSnapshot, payload)
            | None \<Rightarrow>
                (case matchDirectiveTail ''Type'' (drop 7 c) of
                   Some payload \<Rightarrow> Some (Type, payload)
                 | None \<Rightarrow>
                     (case matchDirectiveTail ''Error'' (drop 7 c) of
                        Some payload \<Rightarrow> Some (Error, payload)
                      | None \<Rightarrow> None)))
         else None)"

text \<open>
  Numbers that can be \<^verbatim>\<open>NaN\<close> are of type \<^typ>\<open>int option\<close>, with \<open>None\<close> for
  \<^verbatim>\<open>NaN\<close>.
\<close>

record twoSlashAssertion =
  position :: "int option"
  expected :: string
  expectedRange :: "int \<times> int"
  expectedPrefix :: string
  insertSpace :: bool

datatype assertion =
    Twoslash twoSlashAssertion
  | Manual string
  | Snapshot "string option" string

fun expectedOf :: "assertion \<Rightarrow> string option" where
  \<comment> \<open>the field \<^verbatim>\<open>expected\<close> of an assertion; \<open>None\<close> for \<^verbatim>\<open>undefined\<close>\<close>
  "expectedOf (Twoslash a) = Some (expected a)"
| "expectedOf (Manual e) = Some e"
| "expectedOf (Snapshot e snapshotName) = e"

datatype syntaxErrorType = MissingSnapshotName | MissingExpectType | InvalidTwoslash

datatype syntaxError = SyntaxError syntaxErrorType int

record assertions =
  errorLines :: "nat list"
  typeAssertions :: "(nat \<times> assertion) list"
  duplicates :: "nat list"
  twoSlashAssertions :: "twoSlashAssertion list"
  syntaxErrors :: "syntaxError list"

text \<open>
  A \<^verbatim>\<open>Set\<close> is the list of its elements and a \<^verbatim>\<open>Map\<close> the list of its entries, both in
  insertion order, which is the order in which \<^verbatim>\<open>validate\<close> iterates over them.
  \<^const>\<open>AList.update\<close> is \<^verbatim>\<open>Map.set\<close> and \<^const>\<open>AList.delete\<close> is \<^verbatim>\<open>Map.delete\<close>, whose
  result is \<^verbatim>\<open>Map.has\<close> of the map before.
\<close>

definition setAdd :: "nat \<Rightarrow> nat list \<Rightarrow> nat list" where
  "setAdd x xs = (if x \<in> set xs then xs else xs @ [x])"

definition mapHas :: "(nat \<times> 'v) list \<Rightarrow> nat \<Rightarrow> bool" where
  "mapHas m k = (map_of m k \<noteq> None)"

definition jsSlice :: "string \<Rightarrow> nat option \<Rightarrow> nat \<Rightarrow> string" where
  \<comment> \<open>\<^verbatim>\<open>s.slice(start, end)\<close> for an end that is not negative; a start that is
      \<^verbatim>\<open>undefined\<close> counts as 0\<close>
  "jsSlice s start e = (let a = (case start of None \<Rightarrow> 0 | Some a \<Rightarrow> a) in take (e - a) (drop a s))"

definition startsWith :: "string \<Rightarrow> string \<Rightarrow> bool" where
  "startsWith s p = (take (length p) s = p)"

definition thisLineEnd :: "string \<Rightarrow> nat list \<Rightarrow> nat \<Rightarrow> int" where
  "thisLineEnd src ls nextLine =
     (if nextLine + 1 < length ls then int (ls ! (nextLine + 1)) - 1 else int (length src))"

definition lineText :: "string \<Rightarrow> nat list \<Rightarrow> nat \<Rightarrow> string" where
  "lineText src ls nextLine = jsSlice src (at ls (int nextLine)) (nat (thisLineEnd src ls nextLine + 1))"

function continuationLoop ::
  "string \<Rightarrow> nat list \<Rightarrow> string \<Rightarrow> nat \<Rightarrow> nat \<Rightarrow> string \<times> int \<Rightarrow> string \<times> int" where
  \<comment> \<open>the \<^verbatim>\<open>for\<close> loop of \<^verbatim>\<open>parseTwoslashAssertion\<close> over \<open>nextLine\<close>; the pair is
      \<^verbatim>\<open>expected\<close> and \<^verbatim>\<open>expectedRange[1]\<close>\<close>
  "continuationLoop src ls prefix commentLine nextLine acc =
     (if nextLine < length ls then
        if startsWith (lineText src ls nextLine) prefix then
          continuationLoop src ls prefix commentLine (nextLine + 1)
            ((if nextLine = commentLine then fst acc @ [CHR 0x0A] else fst acc)
               @ drop (length prefix) (lineText src ls nextLine),
             thisLineEnd src ls nextLine)
        else acc
      else acc)"
  by pat_completeness auto
termination
  by (relation "measure (\<lambda>(src, ls, prefix, commentLine, nextLine, acc). length ls - nextLine)") auto

declare continuationLoop.simps [simp del]

definition parseTwoslashAssertion ::
  "string \<Rightarrow> nat \<Rightarrow> nat \<Rightarrow> string \<Rightarrow> nat list \<Rightarrow> (syntaxError + twoSlashAssertion) option" where
  \<comment> \<open>\<open>None\<close> is \<^verbatim>\<open>null\<close>; the regular expression is \<^verbatim>\<open>/^( *)\^\?(.*)$/\<close>\<close>
  "parseTwoslashAssertion comment commentIndex commentLine src ls =
     (let whitespace = takeWhile (\<lambda>c. c = CHR '' '') comment;
          rest = dropWhile (\<lambda>c. c = CHR '' '') comment
      in if \<not> (take 2 rest = ''^?'' \<and> \<not> list_ex isLineTerminator (drop 2 rest)) then None
         else
           let rawPayload = drop 2 rest
           in if rawPayload \<noteq> [] \<and> hd rawPayload \<noteq> CHR '' '' then
                Some (Inl (SyntaxError InvalidTwoslash (int commentLine - 1)))
              else
                let expected0 = drop 1 rawPayload
                in if commentLine = 1 then
                     Some (Inr \<lparr>position = Some (- 1), expected = expected0, expectedRange = (- 1, - 1),
                                expectedPrefix = [], insertSpace = False\<rparr>)
                   else
                     let caretIndex = commentIndex + length whitespace + 2;
                         pos = (case (at ls (int commentLine - 1), at ls (int commentLine - 2)) of
                                  (Some a, Some b) \<Rightarrow> Some (int caretIndex - (int a - int b))
                                | _ \<Rightarrow> None);
                         rangeStart = int (commentIndex + length whitespace + 5);
                         rangeEnd = (if commentLine < length ls then int (ls ! commentLine) - 1
                                     else int (length src));
                         prefix = jsSlice src (at ls (int commentLine - 1)) (commentIndex + 2 + length whitespace)
                                    @ ''   '';
                         res = continuationLoop src ls prefix commentLine commentLine (expected0, rangeEnd)
                     in if rangeStart > snd res then
                          Some (Inr \<lparr>position = pos, expected = fst res, expectedRange = (snd res, snd res),
                                     expectedPrefix = prefix, insertSpace = True\<rparr>)
                        else
                          Some (Inr \<lparr>position = pos, expected = fst res, expectedRange = (rangeStart, snd res),
                                     expectedPrefix = prefix, insertSpace = False\<rparr>))"

definition handleComment :: "sourceFile \<Rightarrow> string \<Rightarrow> nat \<Rightarrow> nat \<Rightarrow> assertions \<Rightarrow> assertions" where
  \<comment> \<open>the body of the \<^verbatim>\<open>while\<close> loop of \<^verbatim>\<open>parseAssertions\<close>, after \<^verbatim>\<open>getLine\<close>\<close>
  "handleComment sf comment commentIndex line st =
     (case matchExpect comment of
        Some (directive, payload) \<Rightarrow>
          (case directive of
             TypeSnapshot \<Rightarrow>
               (case payload of
                  Some (c # cs) \<Rightarrow>
                    if mapHas (typeAssertions st) line then
                      st\<lparr>typeAssertions := AList.delete line (typeAssertions st),
                         duplicates := duplicates st @ [line]\<rparr>
                    else
                      st\<lparr>typeAssertions := AList.update line (Snapshot None (c # cs)) (typeAssertions st)\<rparr>
                | _ \<Rightarrow> st\<lparr>syntaxErrors := syntaxErrors st @ [SyntaxError MissingSnapshotName (int line)]\<rparr>)
           | Error \<Rightarrow>
               (if line \<in> set (errorLines st) then
                  st\<lparr>duplicates := duplicates st @ [line], errorLines := setAdd line (errorLines st)\<rparr>
                else st\<lparr>errorLines := setAdd line (errorLines st)\<rparr>)
           | Type \<Rightarrow>
               (case payload of
                  Some (c # cs) \<Rightarrow>
                    if mapHas (typeAssertions st) line then
                      st\<lparr>typeAssertions := AList.delete line (typeAssertions st),
                         duplicates := duplicates st @ [line]\<rparr>
                    else
                      st\<lparr>typeAssertions := AList.update line (Manual (c # cs)) (typeAssertions st)\<rparr>
                | _ \<Rightarrow> st\<lparr>syntaxErrors := syntaxErrors st @ [SyntaxError MissingExpectType (int line)]\<rparr>))
      | None \<Rightarrow>
          (case parseTwoslashAssertion comment commentIndex line (sourceText sf) (lineStarts sf) of
             None \<Rightarrow> st
           | Some (Inl err) \<Rightarrow> st\<lparr>syntaxErrors := syntaxErrors st @ [err]\<rparr>
           | Some (Inr a) \<Rightarrow> st\<lparr>twoSlashAssertions := twoSlashAssertions st @ [a]\<rparr>))"

lemma findComment_bounds: "findComment s i = Some j \<Longrightarrow> i \<le> j \<and> j + 1 < length s"
proof (induction s i rule: findComment.induct)
  case (1 s i)
  then show ?case
    by (subst (asm) (2) findComment.simps) (auto split: if_splits)
qed

lemma commentRegexpExec_bounds:
  "commentRegexpExec s i = Some (j, c, n) \<Longrightarrow> i \<le> j \<and> j + 2 \<le> n \<and> n \<le> length s"
proof -
  assume a: "commentRegexpExec s i = Some (j, c, n)"
  then obtain k where k: "findComment s i = Some k"
    by (auto simp: commentRegexpExec_def split: option.splits)
  from a k have j: "j = k" and n: "n = k + 2 + length c"
    and c: "c = takeWhile (\<lambda>c. \<not> isLineTerminator c) (drop (k + 2) s)"
    by (auto simp: commentRegexpExec_def Let_def)
  have "length c \<le> length (drop (k + 2) s)"
    unfolding c by (rule length_takeWhile_le)
  with findComment_bounds [OF k] j n show ?thesis by auto
qed

function parseLoop :: "sourceFile \<Rightarrow> nat \<Rightarrow> nat \<Rightarrow> assertions \<Rightarrow> assertions" where
  \<comment> \<open>the \<^verbatim>\<open>while (true)\<close> loop of \<^verbatim>\<open>parseAssertions\<close>; \<open>lastIndex\<close> is the state of
      \<^verbatim>\<open>commentRegexp\<close>\<close>
  "parseLoop sf lastIndex curLine st =
     (case commentRegexpExec (sourceText sf) lastIndex of
        None \<Rightarrow> st
      | Some (commentIndex, comment, lastIndex') \<Rightarrow>
          (case getLine sf curLine commentIndex of
             (line, curLine') \<Rightarrow>
               parseLoop sf lastIndex' curLine' (handleComment sf comment commentIndex line st)))"
  by pat_completeness auto
termination
  by (relation "measure (\<lambda>(sf, lastIndex, curLine, st). length (sourceText sf) - lastIndex)")
     (auto dest!: commentRegexpExec_bounds)

declare parseLoop.simps [simp del]

definition emptyAssertions :: assertions where
  "emptyAssertions =
     \<lparr>errorLines = [], typeAssertions = [], duplicates = [], twoSlashAssertions = [], syntaxErrors = []\<rparr>"

definition parseAssertions :: "sourceFile \<Rightarrow> assertions" where
  "parseAssertions sf = parseLoop sf 0 0 emptyAssertions"

section \<open>Reconciling assertions with the tree\<close>

definition lineOfPosition :: "nat \<Rightarrow> sourceFile \<Rightarrow> nat" where
  \<comment> \<open>TypeScript's \<^verbatim>\<open>getLineAndCharacterOfPosition(pos).line\<close> for a position of the
      file: the index of the last line that starts at or before \<open>pos\<close>\<close>
  "lineOfPosition pos sf = length (filter (\<lambda>s. s \<le> pos) (lineStarts sf)) - 1"

datatype unmetExpectation = UnmetExpectation assertion node string

text \<open>
  The state of the traversal: the map \<^verbatim>\<open>typeAssertions\<close>, from which bound assertions
  are deleted, the array \<^verbatim>\<open>unmetExpectations\<close>, and the nodes that the type checker was
  asked about through \<^verbatim>\<open>getTypeAtLocation\<close>, in the order of the calls and each with the
  line of the assertion it was asked for.  The checker is the function \<open>checker\<close>: the
  text of the type of a node, \<open>None\<close> when the node has no type.
\<close>

record traversal =
  pending :: "(nat \<times> assertion) list"
  unmet :: "unmetExpectation list"
  typeQueries :: "(nat \<times> node) list"

definition falsy :: "string option \<Rightarrow> bool" where
  \<comment> \<open>\<^verbatim>\<open>!expected\<close>: \<^verbatim>\<open>undefined\<close> or the empty string\<close>
  "falsy e = (case e of None \<Rightarrow> True | Some s \<Rightarrow> s = [])"

definition typesDiffer :: "string \<Rightarrow> string option \<Rightarrow> bool" where
  \<comment> \<open>\<^verbatim>\<open>actual !== expected && !matchReadonlyArray(actual, expected)\<close>, evaluated when
      \<^verbatim>\<open>expected\<close> is a string\<close>
  "typesDiffer actual e =
     (case e of
        None \<Rightarrow> True
      | Some expectedText \<Rightarrow> actual \<noteq> expectedText \<and> \<not> matchReadonlyArray actual expectedText)"

fun expressionOf :: "node \<Rightarrow> node" where
  \<comment> \<open>the assignment to \<^verbatim>\<open>node\<close> under \<^verbatim>\<open>node.kind === ts.SyntaxKind.ExpressionStatement\<close>\<close>
  "expressionOf (ExpressionStatement s e x) = x"
| "expressionOf n = n"

definition bindAssertion ::
  "(node \<Rightarrow> string option) \<Rightarrow> nat \<Rightarrow> assertion \<Rightarrow> node \<Rightarrow> traversal \<Rightarrow> traversal" where
  \<comment> \<open>the body of \<^verbatim>\<open>if (assertion !== undefined)\<close>; \<open>n\<close> is the node after the assignment\<close>
  "bindAssertion checker line a n st =
     (let nodeToCheck = getNodeForExpectType n;
          actual = (case checker nodeToCheck of Some t \<Rightarrow> t | None \<Rightarrow> []);
          st1 = st\<lparr>typeQueries := typeQueries st @ [(line, nodeToCheck)]\<rparr>;
          st2 = (if falsy (expectedOf a) \<or> typesDiffer actual (expectedOf a)
                 then st1\<lparr>unmet := unmet st1 @ [UnmetExpectation a n actual]\<rparr> else st1)
      in st2\<lparr>pending := AList.delete line (pending st2)\<rparr>)"

lemma sum_size_forEachChild: "sum_list (map size (forEachChild n)) < size n"
  by (cases n) (auto simp: size_list_conv_sum_list split: option.splits)

lemma size_expressionOf: "size (expressionOf n) \<le> size n"
  by (cases n) auto

function iterate :: "sourceFile \<Rightarrow> (node \<Rightarrow> string option) \<Rightarrow> node \<Rightarrow> traversal \<Rightarrow> traversal"
  and iterateAll :: "sourceFile \<Rightarrow> (node \<Rightarrow> string option) \<Rightarrow> node list \<Rightarrow> traversal \<Rightarrow> traversal" where
  "iterate sf checker n st =
     (case map_of (pending st) (lineOfPosition (getStart n) sf) of
        None \<Rightarrow> iterateAll sf checker (forEachChild n) st
      | Some a \<Rightarrow>
          iterateAll sf checker (forEachChild (expressionOf n))
            (bindAssertion checker (lineOfPosition (getStart n) sf) a (expressionOf n) st))"
| "iterateAll sf checker [] st = st"
| "iterateAll sf checker (c # cs) st = iterateAll sf checker cs (iterate sf checker c st)"
  by pat_completeness auto
termination
proof (relation "measure (\<lambda>x. case x of
          Inl (sf, checker, n, st) \<Rightarrow> 2 * size n
        | Inr (sf, checker, ns, st) \<Rightarrow> 2 * sum_list (map size ns) + 1)", goal_cases)
  case 1
  show ?case by simp
next
  case (2 sf checker n st)
  show ?case using sum_size_forEachChild [of n] by simp
next
  case (3 sf checker n st a)
  show ?case
    using sum_size_forEachChild [of "expressionOf n"] size_expressionOf [of n] by simp
next
  case (4 sf checker c cs st)
  show ?case by simp
next
  case (5 sf checker c cs st)
  show ?case by (cases c) simp_all
qed

declare iterate.simps [simp del]

text \<open>
  \<^verbatim>\<open>getNodeAtPosition\<close>: the callback and the variable \<^verbatim>\<open>candidate\<close> it assigns.  The
  position is a number that can be \<^verbatim>\<open>NaN\<close>, for which both comparisons are false.
\<close>

definition positionWithin :: "int option \<Rightarrow> node \<Rightarrow> bool" where
  "positionWithin p n =
     (case p of None \<Rightarrow> False | Some i \<Rightarrow> i \<ge> int (getStart n) \<and> i \<le> int (getEnd n))"

function nodeAtPositionIterate :: "int option \<Rightarrow> node \<Rightarrow> node option \<Rightarrow> node option"
  and nodeAtPositionAll :: "int option \<Rightarrow> node list \<Rightarrow> node option \<Rightarrow> node option" where
  "nodeAtPositionIterate p n candidate =
     (if positionWithin p n then nodeAtPositionAll p (forEachChild n) (Some n) else candidate)"
| "nodeAtPositionAll p [] candidate = candidate"
| "nodeAtPositionAll p (c # cs) candidate = nodeAtPositionAll p cs (nodeAtPositionIterate p c candidate)"
  by pat_completeness auto
termination
proof (relation "measure (\<lambda>x. case x of
          Inl (p, n, candidate) \<Rightarrow> 2 * size n
        | Inr (p, ns, candidate) \<Rightarrow> 2 * sum_list (map size ns) + 1)", goal_cases)
  case 1
  show ?case by simp
next
  case (2 p n candidate)
  show ?case using sum_size_forEachChild [of n] by simp
next
  case (3 p c cs candidate)
  show ?case by simp
next
  case (4 p c cs candidate)
  show ?case by (cases c) simp_all
qed

declare nodeAtPositionIterate.simps [simp del]

definition getNodeAtPosition :: "sourceFile \<Rightarrow> int option \<Rightarrow> node option" where
  "getNodeAtPosition sf p = nodeAtPositionAll p (childNodes sf) None"

text \<open>
  The loop over \<^verbatim>\<open>twoSlashAssertions\<close>.  Its state is the array
  \<^verbatim>\<open>twoSlashFailureLines\<close>, the array \<^verbatim>\<open>unmetExpectations\<close> and the positions at which
  the language service was asked for quick info, in the order of the calls.  The language
  service is the function \<open>quickInfo\<close>: the texts of the display parts at a position,
  joined, \<open>None\<close> when there is no quick info or it has no display parts.

  \<^verbatim>\<open>getLineAndCharacterOfPosition\<close> fails its assertion \<^verbatim>\<open>position cannot precede the
  beginning of the file\<close> for a position that is negative or \<^verbatim>\<open>NaN\<close>: the exception
  leaves the loop and the rule.
\<close>

datatype thrown = DebugFailure

record twoSlashState =
  twoSlashFailureLines :: "nat list"
  twoSlashUnmet :: "unmetExpectation list"
  quickInfoQueries :: "nat list"

definition lineOfTwoSlashPosition :: "sourceFile \<Rightarrow> int option \<Rightarrow> thrown + nat" where
  "lineOfTwoSlashPosition sf p =
     (case p of
        None \<Rightarrow> Inl DebugFailure
      | Some i \<Rightarrow> if i < 0 then Inl DebugFailure else Inr (lineOfPosition (nat i) sf))"

definition checkTwoSlashAssertion ::
  "sourceFile \<Rightarrow> (nat \<Rightarrow> string option) \<Rightarrow> twoSlashAssertion \<Rightarrow> twoSlashState \<Rightarrow> thrown + twoSlashState" where
  \<comment> \<open>the body of the loop for one assertion\<close>
  "checkTwoSlashAssertion sf quickInfo a st =
     (if position a = Some (- 1) then
        Inr (st\<lparr>twoSlashFailureLines := twoSlashFailureLines st @ [0]\<rparr>)
      else
        (case getNodeAtPosition sf (position a) of
           None \<Rightarrow>
             (case lineOfTwoSlashPosition sf (position a) of
                Inl e \<Rightarrow> Inl e
              | Inr l \<Rightarrow> Inr (st\<lparr>twoSlashFailureLines := twoSlashFailureLines st @ [l]\<rparr>))
         | Some n \<Rightarrow>
             (let st1 = st\<lparr>quickInfoQueries := quickInfoQueries st @ [getStart n]\<rparr>
              in case quickInfo (getStart n) of
                   None \<Rightarrow>
                     (case lineOfTwoSlashPosition sf (position a) of
                        Inl e \<Rightarrow> Inl e
                      | Inr l \<Rightarrow> Inr (st1\<lparr>twoSlashFailureLines := twoSlashFailureLines st1 @ [l]\<rparr>))
                 | Some actual \<Rightarrow>
                     if \<not> matchModuloWhitespace actual (expected a) then
                       Inr (st1\<lparr>twoSlashUnmet := twoSlashUnmet st1 @ [UnmetExpectation (Twoslash a) n actual]\<rparr>)
                     else Inr st1)))"

fun checkTwoSlashAssertions ::
  "sourceFile \<Rightarrow> (nat \<Rightarrow> string option) \<Rightarrow> twoSlashAssertion list \<Rightarrow> twoSlashState \<Rightarrow> thrown + twoSlashState" where
  "checkTwoSlashAssertions sf quickInfo [] st = Inr st"
| "checkTwoSlashAssertions sf quickInfo (a # as) st =
     (case checkTwoSlashAssertion sf quickInfo a st of
        Inl e \<Rightarrow> Inl e
      | Inr st' \<Rightarrow> checkTwoSlashAssertions sf quickInfo as st')"

record expectTypeFailures =
  unmetExpectations :: "unmetExpectation list"
  unusedAssertions :: "nat list"
  checkerQueries :: "(nat \<times> node) list"
  languageServiceQueries :: "nat list"

definition getExpectTypeFailures ::
  "sourceFile \<Rightarrow> (nat \<times> assertion) list \<Rightarrow> twoSlashAssertion list \<Rightarrow> (node \<Rightarrow> string option)
     \<Rightarrow> (nat \<Rightarrow> string option) \<Rightarrow> thrown + expectTypeFailures" where
  \<comment> \<open>the result, together with the calls made to the type checker and to the language
      service\<close>
  "getExpectTypeFailures sf typeAssertions0 twoSlashAssertions0 checker quickInfo =
     (let st = iterateAll sf checker (childNodes sf)
                 \<lparr>pending = typeAssertions0, unmet = [], typeQueries = []\<rparr>
      in case checkTwoSlashAssertions sf quickInfo twoSlashAssertions0
                \<lparr>twoSlashFailureLines = [], twoSlashUnmet = unmet st, quickInfoQueries = []\<rparr> of
           Inl e \<Rightarrow> Inl e
         | Inr st' \<Rightarrow>
             Inr \<lparr>unmetExpectations = twoSlashUnmet st',
                  unusedAssertions = twoSlashFailureLines st' @ map fst (pending st),
                  checkerQueries = typeQueries st,
                  languageServiceQueries = quickInfoQueries st'\<rparr>)"

section \<open>Definitions used to state the properties\<close>

text \<open>
  The normal form of \<^verbatim>\<open>matchModuloWhitespace\<close> in the words of the specification: every
  run of newlines and spaces is collapsed to one space, then both ends are trimmed.  The
  flag of \<open>collapseRuns\<close> says that the character before was part of a run.
\<close>

fun collapseRuns :: "bool \<Rightarrow> string \<Rightarrow> string" where
  "collapseRuns inRun [] = []"
| "collapseRuns inRun (c # cs) =
     (if isNewlineOrSpace c then (if inRun then collapseRuns True cs else CHR '' '' # collapseRuns True cs)
      else c # collapseRuns False cs)"

definition normalizeWhitespace :: "string \<Rightarrow> string" where
  "normalizeWhitespace s = trim (collapseRuns False s)"

text \<open>
  The occurrences of comments that the loop of \<^verbatim>\<open>parseAssertions\<close> goes through: the text
  of each comment, its index and the line that \<^verbatim>\<open>getLine\<close> gives it, in the order of the
  scan.
\<close>

function occurrencesFrom :: "sourceFile \<Rightarrow> nat \<Rightarrow> nat \<Rightarrow> (string \<times> nat \<times> nat) list" where
  "occurrencesFrom sf lastIndex curLine =
     (case commentRegexpExec (sourceText sf) lastIndex of
        None \<Rightarrow> []
      | Some (commentIndex, comment, lastIndex') \<Rightarrow>
          (case getLine sf curLine commentIndex of
             (line, curLine') \<Rightarrow> (comment, commentIndex, line) # occurrencesFrom sf lastIndex' curLine'))"
  by pat_completeness auto
termination
  by (relation "measure (\<lambda>(sf, lastIndex, curLine). length (sourceText sf) - lastIndex)")
     (auto dest!: commentRegexpExec_bounds)

declare occurrencesFrom.simps [simp del]

definition occurrences :: "sourceFile \<Rightarrow> (string \<times> nat \<times> nat) list" where
  "occurrences sf = occurrencesFrom sf 0 0"

definition handleOccurrence :: "sourceFile \<Rightarrow> assertions \<Rightarrow> string \<times> nat \<times> nat \<Rightarrow> assertions" where
  "handleOccurrence sf st occ =
     (case occ of (comment, commentIndex, line) \<Rightarrow> handleComment sf comment commentIndex line st)"

definition typeDirective :: "string \<Rightarrow> assertion option" where
  \<comment> \<open>the assertion of a comment that is a \<^verbatim>\<open>$ExpectType\<close> or \<^verbatim>\<open>$ExpectTypeSnapshot\<close>
      directive with a payload\<close>
  "typeDirective comment =
     (case matchExpect comment of
        Some (Type, Some (c # cs)) \<Rightarrow> Some (Manual (c # cs))
      | Some (TypeSnapshot, Some (c # cs)) \<Rightarrow> Some (Snapshot None (c # cs))
      | _ \<Rightarrow> None)"

definition errorDirective :: "string \<Rightarrow> bool" where
  \<comment> \<open>the comment is a \<^verbatim>\<open>$ExpectError\<close> directive\<close>
  "errorDirective comment = (case matchExpect comment of Some (Error, payload) \<Rightarrow> True | _ \<Rightarrow> False)"

definition typeDirectivesAt :: "nat \<Rightarrow> (string \<times> nat \<times> nat) list \<Rightarrow> assertion list" where
  \<comment> \<open>the assertions of the type directives among \<open>os\<close> that apply to line \<open>l\<close>, in order\<close>
  "typeDirectivesAt l os =
     List.map_filter (\<lambda>(comment, commentIndex, line). if line = l then typeDirective comment else None) os"

definition errorDirectivesAt :: "nat \<Rightarrow> (string \<times> nat \<times> nat) list \<Rightarrow> nat" where
  \<comment> \<open>the number of \<^verbatim>\<open>$ExpectError\<close> directives among \<open>os\<close> that apply to line \<open>l\<close>\<close>
  "errorDirectivesAt l os =
     length (filter (\<lambda>(comment, commentIndex, line). line = l \<and> errorDirective comment) os)"

definition typeDirectivesOn :: "sourceFile \<Rightarrow> nat \<Rightarrow> assertion list" where
  "typeDirectivesOn sf l = typeDirectivesAt l (occurrences sf)"

definition errorDirectivesOn :: "sourceFile \<Rightarrow> nat \<Rightarrow> nat" where
  "errorDirectivesOn sf l = errorDirectivesAt l (occurrences sf)"

definition toggleAssertion :: "assertion option \<Rightarrow> assertion \<Rightarrow> assertion option" where
  \<comment> \<open>what a type directive does to the entry of its line: \<^verbatim>\<open>delete\<close> when there is one,
      \<^verbatim>\<open>set\<close> otherwise\<close>
  "toggleAssertion v a = (case v of None \<Rightarrow> Some a | Some b \<Rightarrow> None)"






text \<open>
  The first fragment of the expected text of a caret comment: what follows \<^verbatim>\<open>^?\<close> and
  the space after it.
\<close>

definition firstFragment :: "string \<Rightarrow> string" where
  "firstFragment comment = drop 1 (drop 2 (dropWhile (\<lambda>c. c = CHR '' '') comment))"

definition caretComment :: "string \<Rightarrow> bool" where
  \<comment> \<open>a comment of the form \<^verbatim>\<open>^?\<close> after spaces, with nothing or a space after \<^verbatim>\<open>^?\<close>\<close>
  "caretComment comment =
     (let rest = dropWhile (\<lambda>c. c = CHR '' '') comment
      in take 2 rest = ''^?'' \<and> \<not> list_ex isLineTerminator (drop 2 rest)
         \<and> (drop 2 rest = [] \<or> hd (drop 2 rest) = CHR '' ''))"

section \<open>The read-only-array matcher\<close>

lemma matchReadonlyArrayLoop_exhausted:
  "length e \<le> expectedPos \<or> length a \<le> actualPos \<Longrightarrow>
   matchReadonlyArrayLoop a e expectedPos actualPos depth"
  by (subst matchReadonlyArrayLoop.simps) auto

lemma matchReadonlyArray_example_match:
  "matchReadonlyArray ''readonly number[]'' ''ReadonlyArray<number>''"
  by code_simp

lemma matchReadonlyArray_example_mismatch:
  "\<not> matchReadonlyArray ''number[]'' ''ReadonlyArray<number>''"
  by code_simp

text \<open>
  Claim C1.  \<^verbatim>\<open>matchReadonlyArray\<close> is to declare a match exactly when the actual text
  has the token \<^verbatim>\<open>readonly\<close>, the expected text has \<^verbatim>\<open>ReadonlyArray\<close>, and the two
  strings are equal once \<^verbatim>\<open>ReadonlyArray<X>\<close> is read as \<^verbatim>\<open>readonly X[]\<close>; one string
  continuing after the other is exhausted is to be a mismatch.  The loop of the source
  ends as soon as either string is exhausted and the function then returns \<^verbatim>\<open>true\<close>
  (\<open>matchReadonlyArrayLoop_exhausted\<close>), so the rest of the longer string is never
  compared: the actual type \<^verbatim>\<open>readonly number[] | undefined\<close> is accepted for the
  expected type \<^verbatim>\<open>ReadonlyArray<number>\<close>.
\<close>

theorem matchReadonlyArray_accepts_unconsumed_rest:
  "matchReadonlyArray ''readonly number[] | undefined'' ''ReadonlyArray<number>''"
  by code_simp

section \<open>The line a comment applies to\<close>

lemma isFirstOnLineFrom_iff:
  "isFirstOnLineFrom s i pos \<longleftrightarrow> (\<forall>k. i \<le> k \<and> k < pos \<longrightarrow> k < length s \<and> s ! k = CHR '' '')"
proof (induction s i pos rule: isFirstOnLineFrom.induct)
  case (1 s i pos)
  show ?case
  proof (cases "i < pos")
    case False
    then show ?thesis by (subst isFirstOnLineFrom.simps) auto
  next
    case True
    show ?thesis
    proof (cases "i < length s \<and> s ! i = CHR '' ''")
      case False
      with True show ?thesis by (subst isFirstOnLineFrom.simps) auto
    next
      case ok: True
      have step: "isFirstOnLineFrom s i pos = isFirstOnLineFrom s (i + 1) pos"
        using True ok by (subst isFirstOnLineFrom.simps) simp
      have ih: "isFirstOnLineFrom s (i + 1) pos \<longleftrightarrow>
                  (\<forall>k. i + 1 \<le> k \<and> k < pos \<longrightarrow> k < length s \<and> s ! k = CHR '' '')"
        using "1.IH" True ok by blast
      have split: "\<And>k. i \<le> k \<longleftrightarrow> k = i \<or> i + 1 \<le> k" by arith
      show ?thesis unfolding step ih split using ok by blast
    qed
  qed
qed

text \<open>
  Claim C5.  A comment that is the first content of its physical line after any white
  space, tabs included, is to apply to the following line.  \<^verbatim>\<open>isFirstOnLine\<close> accepts
  only the space character before the comment (\<open>isFirstOnLineFrom_iff\<close>), so a comment
  indented with a tab is not the first token for it: in the file whose first line is a tab
  followed by \<^verbatim>\<open>// $ExpectType number\<close> and whose second line is \<^verbatim>\<open>foo;\<close>, the comment at
  index 1 applies to line 0, its own line, and the assertion is filed under line 0.
\<close>

theorem getLine_tab_indented_comment:
  "getLine (createSourceFile (CHR 0x09 # ''// $ExpectType number'' @ CHR 0x0A # ''foo;'') []) 0 1 = (0, 0)"
  by code_simp

lemma parseAssertions_tab_indented_comment:
  "typeAssertions (parseAssertions
      (createSourceFile (CHR 0x09 # ''// $ExpectType number'' @ CHR 0x0A # ''foo;'') []))
     = [(0, Manual ''number'')]"
  by code_simp

lemma parseAssertions_space_indented_comment:
  "typeAssertions (parseAssertions
      (createSourceFile (''  // $ExpectType number'' @ CHR 0x0A # ''foo;'') []))
     = [(1, Manual ''number'')]"
  by code_simp

section \<open>Reading the text of a snapshot fix\<close>

lemma readTexts_applied:
  "applied fx \<Longrightarrow> readTexts opts f s a n (fx, store) = (replicate n [], fx, store)"
  by (induction n) (simp_all add: getText_def)

text \<open>
  Claim C4.  Reading the replacement text of the fix of a reported snapshot assertion
  \<open>n\<close> times, starting from the object that \<^verbatim>\<open>fix\<close> returns, gives the empty string every
  time; the store receives no write when \<open>n = 0\<close> or when the option
  \<^verbatim>\<open>disableExpectTypeSnapshotFix\<close> is set, and otherwise exactly one write, of the actual
  type under the file name and the snapshot name, however large \<open>n\<close> is.
\<close>

theorem snapshotFix_writes_once:
  "readTexts opts fileName snapshotName actual n (snapshotFix start, store) =
     (replicate n [],
      \<lparr>range = (start, start), applied = (0 < n)\<rparr>,
      if n = 0 \<or> disableExpectTypeSnapshotFix opts then store
      else store @ [(fileName, snapshotName, actual)])"
proof (cases n)
  case 0
  then show ?thesis by (simp add: snapshotFix_def)
next
  case (Suc m)
  have first: "getText opts fileName snapshotName actual (snapshotFix start, store) =
      ([], \<lparr>range = (start, start), applied = True\<rparr>,
       if disableExpectTypeSnapshotFix opts then store else store @ [(fileName, snapshotName, actual)])"
    by (simp add: getText_def snapshotFix_def updateTypeSnapshot_def)
  have rest: "\<And>w. readTexts opts fileName snapshotName actual m (\<lparr>range = (start, start), applied = True\<rparr>, w)
      = (replicate m [], \<lparr>range = (start, start), applied = True\<rparr>, w)"
    by (rule readTexts_applied) simp
  show ?thesis
    unfolding Suc readTexts.simps first by (simp add: rest)
qed

theorem snapshotFix_writes_once_witness:
  "readTexts \<lparr>disableExpectTypeSnapshotFix = False\<rparr> ''a.ts'' ''Foo'' ''string'' 2 (snapshotFix 7, []) =
     ([[], []], \<lparr>range = (7, 7), applied = True\<rparr>, [(''a.ts'', ''Foo'', ''string'')])
   \<and> readTexts \<lparr>disableExpectTypeSnapshotFix = True\<rparr> ''a.ts'' ''Foo'' ''string'' 2 (snapshotFix 7, []) =
     ([[], []], \<lparr>range = (7, 7), applied = True\<rparr>, [])"
  using snapshotFix_writes_once [of "\<lparr>disableExpectTypeSnapshotFix = False\<rparr>" "''a.ts''" "''Foo''" "''string''" 2 7 "[]"]
    snapshotFix_writes_once [of "\<lparr>disableExpectTypeSnapshotFix = True\<rparr>" "''a.ts''" "''Foo''" "''string''" 2 7 "[]"]
  by (simp add: numeral_2_eq_2)

section \<open>Comparison modulo white space\<close>

lemma collapseRuns_in_run:
  "collapseRuns True cs = collapseRuns False (dropWhile isNewlineOrSpace cs)"
  by (induction cs) simp_all

lemma collapseWhitespace_collapseRuns: "collapseWhitespace s = collapseRuns False s"
  by (induction s rule: collapseWhitespace.induct) (simp_all add: collapseRuns_in_run)

lemma matchModuloWhitespace_iff:
  "matchModuloWhitespace a e \<longleftrightarrow> normalizeWhitespace a = normalizeWhitespace e"
  by (simp add: matchModuloWhitespace_def normalizeWhitespace_def collapseWhitespace_collapseRuns)

lemma unmet_bindAssertion:
  "unmet (bindAssertion checker line b m tr) = unmet tr \<longleftrightarrow>
     (\<exists>e. expectedOf b = Some e \<and> e \<noteq> [] \<and>
        ((case checker (getNodeForExpectType m) of Some t \<Rightarrow> t | None \<Rightarrow> []) = e
         \<or> matchReadonlyArray (case checker (getNodeForExpectType m) of Some t \<Rightarrow> t | None \<Rightarrow> []) e))"
  by (cases "expectedOf b") (auto simp: bindAssertion_def Let_def falsy_def typesDiffer_def)

lemma caret_example:
  "matchModuloWhitespace (''string |'' @ CHR 0x0A # ''  number'') ''string | number''"
  by code_simp

lemma caret_example_manual:
  "\<not> matchReadonlyArray (''string |'' @ CHR 0x0A # ''  number'') ''string | number''"
  by code_simp

text \<open>
  Claim C6.  For a caret assertion whose position has a node with quick info, the loop
  adds nothing but the quick-info query exactly when the quick-info text and the expected
  text are equal after every run of spaces and newlines is collapsed to one space and
  both ends are trimmed, and adds an unmet expectation exactly when they differ.  For a
  manual or snapshot assertion the traversal adds no unmet expectation exactly when the
  expected text is a non-empty string and the actual text is equal to it or matches it
  under \<^verbatim>\<open>matchReadonlyArray\<close>.  The actual text \<^verbatim>\<open>string |\n  number\<close> and the expected
  text \<^verbatim>\<open>string | number\<close> match as a caret assertion; they are different strings and
  \<^verbatim>\<open>matchReadonlyArray\<close> rejects them.
\<close>

theorem caret_whitespace_tolerance:
  assumes "position a \<noteq> Some (- 1)"
    and "getNodeAtPosition sf (position a) = Some n"
    and "quickInfo (getStart n) = Some actual"
  shows "(checkTwoSlashAssertion sf quickInfo a st
            = Inr (st\<lparr>quickInfoQueries := quickInfoQueries st @ [getStart n]\<rparr>)
          \<longleftrightarrow> normalizeWhitespace actual = normalizeWhitespace (expected a))
       \<and> (checkTwoSlashAssertion sf quickInfo a st
            = Inr (st\<lparr>quickInfoQueries := quickInfoQueries st @ [getStart n],
                      twoSlashUnmet := twoSlashUnmet st @ [UnmetExpectation (Twoslash a) n actual]\<rparr>)
          \<longleftrightarrow> normalizeWhitespace actual \<noteq> normalizeWhitespace (expected a))
       \<and> (unmet (bindAssertion checker line b m tr) = unmet tr \<longleftrightarrow>
            (\<exists>e. expectedOf b = Some e \<and> e \<noteq> [] \<and>
               ((case checker (getNodeForExpectType m) of Some t \<Rightarrow> t | None \<Rightarrow> []) = e
                \<or> matchReadonlyArray (case checker (getNodeForExpectType m) of Some t \<Rightarrow> t | None \<Rightarrow> []) e)))
       \<and> matchModuloWhitespace (''string |'' @ CHR 0x0A # ''  number'') ''string | number''
       \<and> ''string |'' @ CHR 0x0A # ''  number'' \<noteq> ''string | number''
       \<and> \<not> matchReadonlyArray (''string |'' @ CHR 0x0A # ''  number'') ''string | number''"
proof -
  let ?q = "st\<lparr>quickInfoQueries := quickInfoQueries st @ [getStart n]\<rparr>"
  let ?u = "st\<lparr>quickInfoQueries := quickInfoQueries st @ [getStart n],
               twoSlashUnmet := twoSlashUnmet st @ [UnmetExpectation (Twoslash a) n actual]\<rparr>"
  have res: "checkTwoSlashAssertion sf quickInfo a st =
      (if normalizeWhitespace actual = normalizeWhitespace (expected a) then Inr ?q else Inr ?u)"
    using assms by (simp add: checkTwoSlashAssertion_def Let_def matchModuloWhitespace_iff)
  have ne: "?q \<noteq> ?u"
  proof
    assume "?q = ?u"
    then have "twoSlashUnmet ?q = twoSlashUnmet ?u" by (rule arg_cong)
    then show False by simp
  qed
  have one: "checkTwoSlashAssertion sf quickInfo a st = Inr ?q
      \<longleftrightarrow> normalizeWhitespace actual = normalizeWhitespace (expected a)"
    unfolding res using ne by auto
  have two: "checkTwoSlashAssertion sf quickInfo a st = Inr ?u
      \<longleftrightarrow> normalizeWhitespace actual \<noteq> normalizeWhitespace (expected a)"
    unfolding res using ne by auto
  have five: "''string |'' @ CHR 0x0A # ''  number'' \<noteq> ''string | number''" by simp
  show ?thesis
    using one two unmet_bindAssertion [of checker line b m tr] caret_example five caret_example_manual
    by blast
qed

theorem caret_whitespace_tolerance_witness:
  "checkTwoSlashAssertion
      (createSourceFile (''let x = f();'' @ CHR 0x0A # ''//  ^? string | number'') [OtherNode 80 4 5 []])
      (\<lambda>p. Some (''string |'' @ CHR 0x0A # ''  number''))
      \<lparr>position = Some 4, expected = ''string | number'', expectedRange = (20, 35),
       expectedPrefix = ''//     '', insertSpace = False\<rparr>
      \<lparr>twoSlashFailureLines = [], twoSlashUnmet = [], quickInfoQueries = []\<rparr>
    = Inr \<lparr>twoSlashFailureLines = [], twoSlashUnmet = [], quickInfoQueries = [4]\<rparr>"
proof -
  let ?sf = "createSourceFile (''let x = f();'' @ CHR 0x0A # ''//  ^? string | number'') [OtherNode 80 4 5 []]"
  let ?a = "\<lparr>position = Some 4, expected = ''string | number'', expectedRange = (20, 35),
       expectedPrefix = ''//     '', insertSpace = False\<rparr>"
  have h1: "position ?a \<noteq> Some (- 1)" by simp
  have h2: "getNodeAtPosition ?sf (position ?a) = Some (OtherNode 80 4 5 [])" by code_simp
  have h3: "(\<lambda>p::nat. Some (''string |'' @ CHR 0x0A # ''  number'')) (getStart (OtherNode 80 4 5 []))
      = Some (''string |'' @ CHR 0x0A # ''  number'')"
    by simp
  have n: "normalizeWhitespace (''string |'' @ CHR 0x0A # ''  number'') = normalizeWhitespace (expected ?a)"
    by code_simp
  from caret_whitespace_tolerance [OF h1 h2 h3, THEN conjunct1,
      of "\<lparr>twoSlashFailureLines = [], twoSlashUnmet = [], quickInfoQueries = []\<rparr>"] n
  show ?thesis by simp
qed

section \<open>Directives that apply to the same line\<close>

lemma handleOccurrence_apply:
  "handleOccurrence sf st (c, i, ln) = handleComment sf c i ln st"
  by (simp add: handleOccurrence_def)

lemma foldl_handleOccurrence_Cons:
  "foldl (handleOccurrence sf) st ((c, i, ln) # os) = foldl (handleOccurrence sf) (handleComment sf c i ln st) os"
  by (simp add: handleOccurrence_apply)

lemma parseLoop_foldl:
  "parseLoop sf i cl st = foldl (handleOccurrence sf) st (occurrencesFrom sf i cl)"
proof (induction sf i cl st rule: parseLoop.induct)
  case (1 sf lastIndex curLine st)
  show ?case
  proof (cases "commentRegexpExec (sourceText sf) lastIndex")
    case None
    then show ?thesis
      by (subst parseLoop.simps, subst occurrencesFrom.simps) simp
  next
    case (Some r)
    obtain commentIndex comment lastIndex' where r: "r = (commentIndex, comment, lastIndex')"
      by (cases r) auto
    obtain line curLine' where g: "getLine sf curLine commentIndex = (line, curLine')"
      by (cases "getLine sf curLine commentIndex") auto
    have "parseLoop sf lastIndex curLine st
        = parseLoop sf lastIndex' curLine' (handleComment sf comment commentIndex line st)"
      by (subst parseLoop.simps) (simp add: Some r g)
    also have "\<dots> = foldl (handleOccurrence sf) (handleComment sf comment commentIndex line st)
                        (occurrencesFrom sf lastIndex' curLine')"
      using "1.IH" [OF Some r [symmetric] refl g [symmetric]] by simp
    also have "\<dots> = foldl (handleOccurrence sf) st (occurrencesFrom sf lastIndex curLine)"
      by (subst (2) occurrencesFrom.simps) (simp add: Some r g handleOccurrence_apply)
    finally show ?thesis .
  qed
qed

lemma parseAssertions_foldl:
  "parseAssertions sf = foldl (handleOccurrence sf) emptyAssertions (occurrences sf)"
  by (simp add: parseAssertions_def occurrences_def parseLoop_foldl)

lemma typeDirective_not_error: "typeDirective c = Some a \<Longrightarrow> \<not> errorDirective c"
  by (auto simp: typeDirective_def errorDirective_def split: option.splits directive.splits list.splits)

lemma handleComment_type:
  "typeDirective comment = Some a \<Longrightarrow>
   handleComment sf comment commentIndex line st =
     (if mapHas (typeAssertions st) line
      then st\<lparr>typeAssertions := AList.delete line (typeAssertions st), duplicates := duplicates st @ [line]\<rparr>
      else st\<lparr>typeAssertions := AList.update line a (typeAssertions st)\<rparr>)"
  by (auto simp: typeDirective_def handleComment_def split: option.splits directive.splits list.splits)

lemma handleComment_error:
  "errorDirective comment \<Longrightarrow>
   handleComment sf comment commentIndex line st =
     (if line \<in> set (errorLines st)
      then st\<lparr>duplicates := duplicates st @ [line], errorLines := setAdd line (errorLines st)\<rparr>
      else st\<lparr>errorLines := setAdd line (errorLines st)\<rparr>)"
  by (auto simp: errorDirective_def handleComment_def split: option.splits directive.splits list.splits)

lemma handleComment_other:
  "typeDirective comment = None \<Longrightarrow> \<not> errorDirective comment \<Longrightarrow>
   typeAssertions (handleComment sf comment commentIndex line st) = typeAssertions st
   \<and> errorLines (handleComment sf comment commentIndex line st) = errorLines st
   \<and> duplicates (handleComment sf comment commentIndex line st) = duplicates st"
  by (auto simp: typeDirective_def errorDirective_def handleComment_def
      split: option.splits directive.splits list.splits sum.splits)

lemma set_setAdd: "set (setAdd x xs) = insert x (set xs)"
  by (auto simp: setAdd_def)

lemma step_entry:
  "map_of (typeAssertions (handleComment sf c i ln st)) l =
     (if ln = l then (case typeDirective c of
                        Some a \<Rightarrow> toggleAssertion (map_of (typeAssertions st) l) a
                      | None \<Rightarrow> map_of (typeAssertions st) l)
      else map_of (typeAssertions st) l)"
proof (cases "typeDirective c")
  case (Some a)
  show ?thesis
    by (auto simp: handleComment_type [OF Some] Some mapHas_def toggleAssertion_def
        delete_conv update_conv' split: option.splits)
next
  case None
  show ?thesis
  proof (cases "errorDirective c")
    case True
    then show ?thesis by (simp add: handleComment_error None)
  next
    case False
    with None show ?thesis by (simp add: handleComment_other)
  qed
qed

lemma step_errorLines:
  "l \<in> set (errorLines (handleComment sf c i ln st)) \<longleftrightarrow>
     l \<in> set (errorLines st) \<or> (ln = l \<and> errorDirective c)"
proof (cases "typeDirective c")
  case (Some a)
  with typeDirective_not_error [OF Some] show ?thesis
    by (auto simp: handleComment_type [OF Some])
next
  case None
  show ?thesis
  proof (cases "errorDirective c")
    case True
    then show ?thesis by (auto simp: handleComment_error set_setAdd)
  next
    case False
    with None show ?thesis by (simp add: handleComment_other)
  qed
qed

lemma step_duplicates:
  "count_list (duplicates (handleComment sf c i ln st)) l =
     count_list (duplicates st) l
     + (if ln = l \<and> typeDirective c \<noteq> None \<and> map_of (typeAssertions st) l \<noteq> None then 1 else 0)
     + (if ln = l \<and> errorDirective c \<and> l \<in> set (errorLines st) then 1 else 0)"
proof (cases "typeDirective c")
  case (Some a)
  with typeDirective_not_error [OF Some] show ?thesis
    by (auto simp: handleComment_type [OF Some] mapHas_def)
next
  case None
  show ?thesis
  proof (cases "errorDirective c")
    case True
    then show ?thesis by (auto simp: handleComment_error None)
  next
    case False
    with None show ?thesis by (simp add: handleComment_other)
  qed
qed

lemma typeDirectivesAt_Cons:
  "typeDirectivesAt l ((c, i, ln) # os) =
     (if ln = l then (case typeDirective c of Some a \<Rightarrow> a # typeDirectivesAt l os
                      | None \<Rightarrow> typeDirectivesAt l os)
      else typeDirectivesAt l os)"
  unfolding typeDirectivesAt_def by (simp split: option.splits)

lemma errorDirectivesAt_Cons:
  "errorDirectivesAt l ((c, i, ln) # os) =
     (if ln = l \<and> errorDirective c then Suc (errorDirectivesAt l os) else errorDirectivesAt l os)"
  by (simp add: errorDirectivesAt_def)

lemma foldl_entry:
  "map_of (typeAssertions (foldl (handleOccurrence sf) st os)) l =
     foldl toggleAssertion (map_of (typeAssertions st) l) (typeDirectivesAt l os)"
proof (induction os arbitrary: st)
  case Nil
  show ?case by (simp add: typeDirectivesAt_def)
next
  case (Cons oc os)
  obtain c i ln where oc: "oc = (c, i, ln)" by (cases oc) auto
  show ?case
    unfolding oc foldl_handleOccurrence_Cons Cons.IH step_entry typeDirectivesAt_Cons
    by (simp split: option.splits)
qed

lemma foldl_errorLines:
  "l \<in> set (errorLines (foldl (handleOccurrence sf) st os)) \<longleftrightarrow>
     l \<in> set (errorLines st) \<or> 0 < errorDirectivesAt l os"
proof (induction os arbitrary: st)
  case Nil
  show ?case by (simp add: errorDirectivesAt_def)
next
  case (Cons oc os)
  obtain c i ln where oc: "oc = (c, i, ln)" by (cases oc) auto
  show ?case
    unfolding oc foldl_handleOccurrence_Cons Cons.IH step_errorLines errorDirectivesAt_Cons
    by auto
qed

lemma foldl_toggle_None:
  "(foldl toggleAssertion v ds \<noteq> None) = ((v \<noteq> None) \<noteq> odd (length ds))"
  by (induction ds arbitrary: v) (auto simp: toggleAssertion_def split: option.splits)

lemma foldl_duplicates:
  "count_list (duplicates (foldl (handleOccurrence sf) st os)) l =
     count_list (duplicates st) l
     + (length (typeDirectivesAt l os) + (if map_of (typeAssertions st) l \<noteq> None then 1 else 0)) div 2
     + (errorDirectivesAt l os - (if l \<in> set (errorLines st) then 0 else 1))"
proof (induction os arbitrary: st)
  case Nil
  show ?case by (simp add: errorDirectivesAt_def typeDirectivesAt_def)
next
  case (Cons oc os)
  obtain c i ln where oc: "oc = (c, i, ln)" by (cases oc) auto
  let ?st = "handleComment sf c i ln st"
  have ih: "count_list (duplicates (foldl (handleOccurrence sf) ?st os)) l =
     count_list (duplicates ?st) l
     + (length (typeDirectivesAt l os) + (if map_of (typeAssertions ?st) l \<noteq> None then 1 else 0)) div 2
     + (errorDirectivesAt l os - (if l \<in> set (errorLines ?st) then 0 else 1))"
    by (rule Cons.IH)
  have fold: "foldl (handleOccurrence sf) st (oc # os) = foldl (handleOccurrence sf) ?st os"
    by (simp add: oc handleOccurrence_def)
  show ?case
  proof (cases "ln = l \<and> typeDirective c \<noteq> None")
    case True
    then obtain a where a: "typeDirective c = Some a" by auto
    have ne: "\<not> errorDirective c" by (rule typeDirective_not_error [OF a])
    show ?thesis
      unfolding fold ih step_duplicates step_entry step_errorLines
      using True a ne
      by (simp add: oc typeDirectivesAt_Cons errorDirectivesAt_Cons toggleAssertion_def split: option.splits)
  next
    case False
    show ?thesis
    proof (cases "ln = l \<and> errorDirective c")
      case True
      with False have n: "typeDirective c = None" by auto
      show ?thesis
        unfolding fold ih step_duplicates step_entry step_errorLines
        using True n
        by (simp add: oc typeDirectivesAt_Cons errorDirectivesAt_Cons)
    next
      case F2: False
      show ?thesis
        unfolding fold ih step_duplicates step_entry step_errorLines
        using False F2
        by (auto simp add: oc typeDirectivesAt_Cons errorDirectivesAt_Cons split: option.splits)
    qed
  qed
qed


lemma parseAssertions_entry:
  "map_of (typeAssertions (parseAssertions sf)) l = foldl toggleAssertion None (typeDirectivesOn sf l)"
  by (simp add: parseAssertions_foldl foldl_entry typeDirectivesOn_def emptyAssertions_def)

lemma parseAssertions_errorLines:
  "l \<in> set (errorLines (parseAssertions sf)) \<longleftrightarrow> 0 < errorDirectivesOn sf l"
  by (simp add: parseAssertions_foldl foldl_errorLines errorDirectivesOn_def emptyAssertions_def)

lemma parseAssertions_duplicates:
  "count_list (duplicates (parseAssertions sf)) l =
     length (typeDirectivesOn sf l) div 2 + (errorDirectivesOn sf l - 1)"
  by (simp add: parseAssertions_foldl foldl_duplicates typeDirectivesOn_def errorDirectivesOn_def
      emptyAssertions_def)

text \<open>
  Claim C9.  When one type directive (\<^verbatim>\<open>$ExpectType\<close> or \<^verbatim>\<open>$ExpectTypeSnapshot\<close>) and one
  \<^verbatim>\<open>$ExpectError\<close> directive apply to the same line, the line is in the set of error
  lines, the map of type assertions has the assertion of the type directive for the line,
  and the line is not among the duplicates.
\<close>

theorem error_and_type_directive_coexist:
  assumes "typeDirectivesOn sf l = [a]" and "errorDirectivesOn sf l = 1"
  shows "l \<in> set (errorLines (parseAssertions sf))
       \<and> map_of (typeAssertions (parseAssertions sf)) l = Some a
       \<and> l \<notin> set (duplicates (parseAssertions sf))"
proof -
  have "count_list (duplicates (parseAssertions sf)) l = 0"
    using assms by (simp add: parseAssertions_duplicates)
  then have "l \<notin> set (duplicates (parseAssertions sf))"
    by (simp add: count_list_0_iff)
  then show ?thesis
    using assms by (simp add: parseAssertions_entry parseAssertions_errorLines toggleAssertion_def)
qed

lemma occurrences_example: "occurrences (createSourceFile (''// $ExpectError'' @ CHR 0x0A # ''foo; // $ExpectType number'') [])
   = [('' $ExpectError'', 0, 1), ('' $ExpectType number'', 21, 1)]"
  by code_simp

theorem error_and_type_directive_coexist_witness:
  "typeDirectivesOn (createSourceFile (''// $ExpectError'' @ CHR 0x0A # ''foo; // $ExpectType number'') []) 1
     = [Manual ''number'']
   \<and> errorDirectivesOn (createSourceFile (''// $ExpectError'' @ CHR 0x0A # ''foo; // $ExpectType number'') []) 1 = 1
   \<and> 1 \<in> set (errorLines (parseAssertions
         (createSourceFile (''// $ExpectError'' @ CHR 0x0A # ''foo; // $ExpectType number'') [])))
   \<and> map_of (typeAssertions (parseAssertions
         (createSourceFile (''// $ExpectError'' @ CHR 0x0A # ''foo; // $ExpectType number'') []))) 1
       = Some (Manual ''number'')
   \<and> 1 \<notin> set (duplicates (parseAssertions
         (createSourceFile (''// $ExpectError'' @ CHR 0x0A # ''foo; // $ExpectType number'') [])))"
proof -
  let ?sf = "createSourceFile (''// $ExpectError'' @ CHR 0x0A # ''foo; // $ExpectType number'') []"
  have t: "typeDirectivesOn ?sf 1 = [Manual ''number'']" by code_simp
  have e: "errorDirectivesOn ?sf 1 = 1" by code_simp
  from error_and_type_directive_coexist [OF t e] t e show ?thesis by blast
qed

text \<open>
  Claim C2, as stated: a line with two or more directives of one family is to have no
  assertion left after parsing, with no entry in the map and no membership in the set of
  error lines, and to be once among the duplicates.  Two \<^verbatim>\<open>$ExpectError\<close> directives on
  line 1 leave the line in the set of error lines.
\<close>

theorem duplicate_expect_error_keeps_line:
  "errorDirectivesOn (createSourceFile (''// $ExpectError'' @ CHR 0x0A # ''foo(); // $ExpectError'') []) 1 = 2
   \<and> errorLines (parseAssertions
        (createSourceFile (''// $ExpectError'' @ CHR 0x0A # ''foo(); // $ExpectError'') [])) = [1]
   \<and> duplicates (parseAssertions
        (createSourceFile (''// $ExpectError'' @ CHR 0x0A # ''foo(); // $ExpectError'') [])) = [1]"
  by code_simp

section \<open>Continuation lines of a caret assertion\<close>

lemma lineText_eq:
  "n + 1 < length ls \<Longrightarrow> lineText src ls n = take (ls ! (n + 1) - ls ! n) (drop (ls ! n) src)"
  by (simp add: lineText_def thisLineEnd_def jsSlice_def at_def Let_def)

lemma continuationLoop_stop:
  "\<not> (n < length ls \<and> startsWith (lineText src ls n) p) \<Longrightarrow>
   continuationLoop src ls p cl n acc = acc"
  by (subst continuationLoop.simps) auto

lemma continuationLoop_step:
  "n < length ls \<Longrightarrow> startsWith (lineText src ls n) p \<Longrightarrow>
   continuationLoop src ls p cl n acc =
     continuationLoop src ls p cl (n + 1)
       ((if n = cl then fst acc @ [CHR 0x0A] else fst acc) @ drop (length p) (lineText src ls n),
        thisLineEnd src ls n)"
  by (subst continuationLoop.simps) simp

lemma continuationLoop_later:
  assumes "\<forall>j<k. startsWith (lineText src ls (n + j)) p"
    and "n + k \<le> length ls"
    and "n + k < length ls \<longrightarrow> \<not> startsWith (lineText src ls (n + k)) p"
    and "cl < n"
  shows "continuationLoop src ls p cl n (e, r) =
     (e @ concat (map (\<lambda>j. drop (length p) (lineText src ls (n + j))) [0..<k]),
      if k = 0 then r else thisLineEnd src ls (n + k - 1))"
  using assms
proof (induction k arbitrary: n e r)
  case 0
  have "\<not> (n < length ls \<and> startsWith (lineText src ls n) p)" using 0 by auto
  from continuationLoop_stop [OF this] show ?case by simp
next
  case (Suc k)
  have s0: "startsWith (lineText src ls n) p" using Suc.prems(1) by force
  have n: "n < length ls" using Suc.prems(2) by simp
  have a: "\<forall>j<k. startsWith (lineText src ls (n + 1 + j)) p"
    using Suc.prems(1) by (metis Suc_eq_plus1 add_Suc_right add_Suc_shift not_less_eq)
  have step: "continuationLoop src ls p cl n (e, r) =
      continuationLoop src ls p cl (n + 1) (e @ drop (length p) (lineText src ls n), thisLineEnd src ls n)"
    using continuationLoop_step [OF n s0, of cl "(e, r)"] Suc.prems(4) by simp
  have ih: "continuationLoop src ls p cl (n + 1) (e @ drop (length p) (lineText src ls n), thisLineEnd src ls n) =
     ((e @ drop (length p) (lineText src ls n)) @ concat (map (\<lambda>j. drop (length p) (lineText src ls (n + 1 + j))) [0..<k]),
      if k = 0 then thisLineEnd src ls n else thisLineEnd src ls (n + 1 + k - 1))"
    using Suc.prems by (intro Suc.IH [OF a]) auto
  have m: "map (\<lambda>j. drop (length p) (lineText src ls (n + j))) [0..<Suc k]
      = drop (length p) (lineText src ls n) # map (\<lambda>j. drop (length p) (lineText src ls (n + 1 + j))) [0..<k]"
    by (simp add: upt_conv_Cons map_Suc_upt [symmetric] del: upt_Suc)
  show ?case
    unfolding step ih m by (cases k) simp_all
qed

lemma continuationLoop_run:
  assumes "\<forall>j<k. startsWith (lineText src ls (cl + j)) p"
    and "cl + k \<le> length ls"
    and "cl + k < length ls \<longrightarrow> \<not> startsWith (lineText src ls (cl + k)) p"
    and "0 < k"
  shows "continuationLoop src ls p cl cl (e, r) =
     (e @ CHR 0x0A # concat (map (\<lambda>j. drop (length p) (lineText src ls (cl + j))) [0..<k]),
      thisLineEnd src ls (cl + k - 1))"
proof -
  obtain k' where k: "k = Suc k'" using assms(4) by (cases k) auto
  have s0: "startsWith (lineText src ls cl) p" using assms(1,4) by force
  have n: "cl < length ls" using assms(2,4) by simp
  have step: "continuationLoop src ls p cl cl (e, r) =
      continuationLoop src ls p cl (cl + 1) (e @ [CHR 0x0A] @ drop (length p) (lineText src ls cl), thisLineEnd src ls cl)"
    using continuationLoop_step [OF n s0, of cl "(e, r)"] by simp
  have a: "\<forall>j<k'. startsWith (lineText src ls (cl + 1 + j)) p"
    using assms(1) k by (metis Suc_eq_plus1 add_Suc_right add_Suc_shift not_less_eq)
  have later: "continuationLoop src ls p cl (cl + 1) (e @ [CHR 0x0A] @ drop (length p) (lineText src ls cl), thisLineEnd src ls cl) =
     ((e @ [CHR 0x0A] @ drop (length p) (lineText src ls cl)) @ concat (map (\<lambda>j. drop (length p) (lineText src ls (cl + 1 + j))) [0..<k']),
      if k' = 0 then thisLineEnd src ls cl else thisLineEnd src ls (cl + 1 + k' - 1))"
    using assms k by (intro continuationLoop_later [OF a]) auto
  have m: "map (\<lambda>j. drop (length p) (lineText src ls (cl + j))) [0..<Suc k']
      = drop (length p) (lineText src ls cl) # map (\<lambda>j. drop (length p) (lineText src ls (cl + 1 + j))) [0..<k']"
    by (simp add: upt_conv_Cons map_Suc_upt [symmetric] del: upt_Suc)
  show ?thesis
    unfolding step later k m by (cases k') simp_all
qed


text \<open>
  Claim C3, amended.  For a caret assertion that is not built as the sentinel and is
  followed by \<open>k \<ge> 1\<close> lines that start with its recorded prefix, the line after them
  (if any) not starting with it: the expected text is the first fragment, a newline, and
  then for each of the \<open>k\<close> lines in order the text of the line after the prefix, where
  the text of a line that is followed by another line runs up to the start of that line
  and so includes its line break; the end of the range is the end position of the last of
  the \<open>k\<close> lines; the prefix is the text from the start of line \<open>commentLine - 1\<close> up to
  the caret, followed by three spaces.
\<close>

theorem caret_continuation_lines:
  assumes "parseTwoslashAssertion comment commentIndex commentLine src ls = Some (Inr a)"
    and "commentLine \<noteq> 1"
    and "0 < k"
    and "\<forall>j<k. startsWith (lineText src ls (commentLine + j)) (expectedPrefix a)"
    and "commentLine + k \<le> length ls"
    and "commentLine + k < length ls \<longrightarrow> \<not> startsWith (lineText src ls (commentLine + k)) (expectedPrefix a)"
  shows "expected a = firstFragment comment @ CHR 0x0A #
            concat (map (\<lambda>j. drop (length (expectedPrefix a)) (lineText src ls (commentLine + j))) [0..<k])
       \<and> snd (expectedRange a) = thisLineEnd src ls (commentLine + k - 1)
       \<and> expectedPrefix a =
            jsSlice src (at ls (int commentLine - 1))
              (commentIndex + 2 + length (takeWhile (\<lambda>c. c = CHR '' '') comment)) @ ''   ''
       \<and> (\<forall>j<k. commentLine + j + 1 < length ls \<longrightarrow>
            lineText src ls (commentLine + j) =
              take (ls ! (commentLine + j + 1) - ls ! (commentLine + j)) (drop (ls ! (commentLine + j)) src))"
proof -
  let ?p = "jsSlice src (at ls (int commentLine - 1))
              (commentIndex + 2 + length (takeWhile (\<lambda>c. c = CHR '' '') comment)) @ ''   ''"
  let ?r0 = "if commentLine < length ls then int (ls ! commentLine) - 1 else int (length src)"
  let ?res = "continuationLoop src ls ?p commentLine commentLine (firstFragment comment, ?r0)"
  have p: "expectedPrefix a = ?p" and e: "expected a = fst ?res" and r: "snd (expectedRange a) = snd ?res"
    using assms(1,2)
    by (auto simp: parseTwoslashAssertion_def Let_def firstFragment_def split: if_splits)
  have run: "?res =
     (firstFragment comment @ CHR 0x0A # concat (map (\<lambda>j. drop (length ?p) (lineText src ls (commentLine + j))) [0..<k]),
      thisLineEnd src ls (commentLine + k - 1))"
    using assms(3-6) unfolding p by (intro continuationLoop_run) auto
  have lt: "\<forall>j<k. commentLine + j + 1 < length ls \<longrightarrow>
            lineText src ls (commentLine + j) =
              take (ls ! (commentLine + j + 1) - ls ! (commentLine + j)) (drop (ls ! (commentLine + j)) src)"
    using lineText_eq by blast
  show ?thesis
    unfolding e r run using p lt by simp
qed

theorem caret_continuation_lines_witness:
  "expected \<lparr>position = Some 3, expected = ''x'' @ CHR 0x0A # ''y'' @ CHR 0x0A # ''z'' @ [CHR 0x0A],
        expectedRange = (10, 27), expectedPrefix = ''//    '', insertSpace = False\<rparr>
     = firstFragment '' ^? x'' @ CHR 0x0A #
         concat (map (\<lambda>j. drop (length (expectedPrefix \<lparr>position = Some 3, expected = ''x'' @ CHR 0x0A # ''y'' @ CHR 0x0A # ''z'' @ [CHR 0x0A],
        expectedRange = (10, 27), expectedPrefix = ''//    '', insertSpace = False\<rparr>))
           (lineText (''ab;'' @ CHR 0x0A # ''// ^? x'' @ CHR 0x0A # ''//    y'' @ CHR 0x0A # ''//    z'' @ CHR 0x0A # ''w'') [0, 4, 12, 20, 28] (2 + j))) [0..<2])
   \<and> snd (expectedRange \<lparr>position = Some 3, expected = ''x'' @ CHR 0x0A # ''y'' @ CHR 0x0A # ''z'' @ [CHR 0x0A],
        expectedRange = (10, 27), expectedPrefix = ''//    '', insertSpace = False\<rparr>)
       = thisLineEnd (''ab;'' @ CHR 0x0A # ''// ^? x'' @ CHR 0x0A # ''//    y'' @ CHR 0x0A # ''//    z'' @ CHR 0x0A # ''w'') [0, 4, 12, 20, 28] (2 + 2 - 1)
   \<and> expectedPrefix \<lparr>position = Some 3, expected = ''x'' @ CHR 0x0A # ''y'' @ CHR 0x0A # ''z'' @ [CHR 0x0A],
        expectedRange = (10, 27), expectedPrefix = ''//    '', insertSpace = False\<rparr>
       = jsSlice (''ab;'' @ CHR 0x0A # ''// ^? x'' @ CHR 0x0A # ''//    y'' @ CHR 0x0A # ''//    z'' @ CHR 0x0A # ''w'') (at [0, 4, 12, 20, 28] (int 2 - 1)) (4 + 2 + length (takeWhile (\<lambda>c. c = CHR '' '') '' ^? x'')) @ ''   ''
   \<and> lineText (''ab;'' @ CHR 0x0A # ''// ^? x'' @ CHR 0x0A # ''//    y'' @ CHR 0x0A # ''//    z'' @ CHR 0x0A # ''w'') [0, 4, 12, 20, 28] (2 + 1) =
          take ([0, 4, 12, 20, 28] ! (2 + 1 + 1) - [0, 4, 12, 20, 28] ! (2 + 1)) (drop ([0, 4, 12, 20, 28] ! (2 + 1)) (''ab;'' @ CHR 0x0A # ''// ^? x'' @ CHR 0x0A # ''//    y'' @ CHR 0x0A # ''//    z'' @ CHR 0x0A # ''w''))"
proof -
  let ?src = "(''ab;'' @ CHR 0x0A # ''// ^? x'' @ CHR 0x0A # ''//    y'' @ CHR 0x0A # ''//    z'' @ CHR 0x0A # ''w'')"
  let ?ls = "[0, 4, 12, 20, 28] :: nat list"
  let ?a = "\<lparr>position = Some 3, expected = ''x'' @ CHR 0x0A # ''y'' @ CHR 0x0A # ''z'' @ [CHR 0x0A],
        expectedRange = (10, 27), expectedPrefix = ''//    '', insertSpace = False\<rparr>"
  have h1: "parseTwoslashAssertion '' ^? x'' 4 2 ?src ?ls = Some (Inr ?a)" by code_simp
  have h2: "(2::nat) \<noteq> 1" by simp
  have h3: "(0::nat) < 2" by simp
  have l0: "startsWith (lineText ?src ?ls (2 + 0)) (expectedPrefix ?a)" by code_simp
  have l1: "startsWith (lineText ?src ?ls (2 + 1)) (expectedPrefix ?a)" by code_simp
  have h4: "\<forall>j<2. startsWith (lineText ?src ?ls (2 + j)) (expectedPrefix ?a)"
  proof (intro allI impI)
    fix j :: nat assume "j < 2"
    then consider "j = 0" | "j = 1" by arith
    then show "startsWith (lineText ?src ?ls (2 + j)) (expectedPrefix ?a)"
    proof cases
      case 1
      show ?thesis unfolding 1 by (rule l0)
    next
      case 2
      show ?thesis unfolding 2 by (rule l1)
    qed
  qed
  have h5: "2 + 2 \<le> length ?ls" by simp
  have h6: "2 + 2 < length ?ls \<longrightarrow> \<not> startsWith (lineText ?src ?ls (2 + 2)) (expectedPrefix ?a)"
    by code_simp
  note t = caret_continuation_lines [OF h1 h2 h3 h4 h5 h6]
  have j: "(1::nat) < 2" by simp
  have n: "2 + 1 + 1 < length ?ls" by simp
  note c1 = t [THEN conjunct1]
  note c2 = t [THEN conjunct2, THEN conjunct1]
  note c3 = t [THEN conjunct2, THEN conjunct2, THEN conjunct1]
  note c4 = t [THEN conjunct2, THEN conjunct2, THEN conjunct2, rule_format, OF j n]
  show ?thesis by (intro conjI c1 c2 c3 c4)
qed

text \<open>
  Claim C3, as stated: the expected text is to be the \<open>k + 1\<close> fragments joined by single
  newlines with no trailing newline.  In the file below the caret comment \<^verbatim>\<open>// ^? x\<close> is
  followed by the continuation lines \<^verbatim>\<open>//    y\<close> and \<^verbatim>\<open>//    z\<close> and then by the line
  \<^verbatim>\<open>w\<close>; the expected text ends with the line break of the last continuation line.
\<close>

theorem caret_continuation_trailing_newline:
  "map expected (twoSlashAssertions (parseAssertions (createSourceFile
      (''ab;'' @ CHR 0x0A # ''// ^? x'' @ CHR 0x0A # ''//    y'' @ CHR 0x0A # ''//    z'' @ CHR 0x0A # ''w'') [])))
     = [''x'' @ CHR 0x0A # ''y'' @ CHR 0x0A # ''z'' @ [CHR 0x0A]]"
  by code_simp

section \<open>Caret comments at the start of the file\<close>

lemma parseTwoslashAssertion_first_line:
  "caretComment comment \<Longrightarrow>
   parseTwoslashAssertion comment commentIndex 1 src ls =
     Some (Inr \<lparr>position = Some (- 1), expected = firstFragment comment, expectedRange = (- 1, - 1),
                expectedPrefix = [], insertSpace = False\<rparr>)"
  by (auto simp: caretComment_def parseTwoslashAssertion_def Let_def firstFragment_def)

lemma checkTwoSlashAssertion_sentinel:
  "position a = Some (- 1) \<Longrightarrow>
   checkTwoSlashAssertion sf quickInfo a st = Inr (st\<lparr>twoSlashFailureLines := twoSlashFailureLines st @ [0]\<rparr>)"
  by (simp add: checkTwoSlashAssertion_def)

lemma checkTwoSlashAssertion_lines_mono:
  "checkTwoSlashAssertion sf quickInfo a st = Inr st' \<Longrightarrow>
   set (twoSlashFailureLines st) \<subseteq> set (twoSlashFailureLines st')"
  by (auto simp: checkTwoSlashAssertion_def Let_def split: if_splits option.splits sum.splits)

lemma checkTwoSlashAssertions_lines_mono:
  "checkTwoSlashAssertions sf quickInfo as st = Inr st' \<Longrightarrow>
   set (twoSlashFailureLines st) \<subseteq> set (twoSlashFailureLines st')"
proof (induction as arbitrary: st)
  case Nil
  then show ?case by simp
next
  case (Cons a as)
  then obtain st1 where 1: "checkTwoSlashAssertion sf quickInfo a st = Inr st1"
    and 2: "checkTwoSlashAssertions sf quickInfo as st1 = Inr st'"
    by (auto split: sum.splits)
  from checkTwoSlashAssertion_lines_mono [OF 1] Cons.IH [OF 2] show ?case by blast
qed

lemma checkTwoSlashAssertions_sentinel:
  "a \<in> set as \<Longrightarrow> position a = Some (- 1) \<Longrightarrow>
   checkTwoSlashAssertions sf quickInfo as st = Inr st' \<Longrightarrow> 0 \<in> set (twoSlashFailureLines st')"
proof (induction as arbitrary: st)
  case Nil
  then show ?case by simp
next
  case (Cons b as)
  from Cons.prems(3) obtain st1 where 1: "checkTwoSlashAssertion sf quickInfo b st = Inr st1"
    and 2: "checkTwoSlashAssertions sf quickInfo as st1 = Inr st'"
    by (auto split: sum.splits)
  show ?case
  proof (cases "a = b")
    case True
    with Cons.prems(2) 1 have "0 \<in> set (twoSlashFailureLines st1)"
      by (auto simp: checkTwoSlashAssertion_sentinel)
    with checkTwoSlashAssertions_lines_mono [OF 2] show ?thesis by blast
  next
    case False
    with Cons.prems(1) have "a \<in> set as" by simp
    from Cons.IH [OF this Cons.prems(2) 2] show ?thesis .
  qed
qed

lemma checkTwoSlashAssertion_total:
  "position b = Some i \<Longrightarrow> - 1 \<le> i \<Longrightarrow> \<exists>st'. checkTwoSlashAssertion sf quickInfo b st = Inr st'"
  by (auto simp: checkTwoSlashAssertion_def lineOfTwoSlashPosition_def Let_def split: option.splits)

lemma checkTwoSlashAssertions_total:
  "\<forall>b\<in>set as. \<exists>i. position b = Some i \<and> - 1 \<le> i \<Longrightarrow>
   \<exists>st'. checkTwoSlashAssertions sf quickInfo as st = Inr st'"
proof (induction as arbitrary: st)
  case Nil
  show ?case by simp
next
  case (Cons b as)
  then obtain i where "position b = Some i" "- 1 \<le> i" by auto
  from checkTwoSlashAssertion_total [OF this]
  obtain st1 where 1: "checkTwoSlashAssertion sf quickInfo b st = Inr st1" by blast
  from Cons have "\<exists>st'. checkTwoSlashAssertions sf quickInfo as st1 = Inr st'" by simp
  with 1 show ?case by simp
qed

lemma nodeAtPosition_NaN:
  "nodeAtPositionIterate None n candidate = candidate"
  "nodeAtPositionAll None ns candidate = candidate"
proof -
  show 1: "nodeAtPositionIterate None n candidate = candidate" for n candidate
    by (simp add: nodeAtPositionIterate.simps positionWithin_def)
  show "nodeAtPositionAll None ns candidate = candidate"
    by (induction ns arbitrary: candidate) (simp_all add: 1)
qed

lemma checkTwoSlashAssertion_NaN:
  "position a = None \<Longrightarrow> checkTwoSlashAssertion sf quickInfo a st = Inl DebugFailure"
  by (simp add: checkTwoSlashAssertion_def getNodeAtPosition_def nodeAtPosition_NaN
      lineOfTwoSlashPosition_def)

lemma getExpectTypeFailures_NaN:
  "position a = None \<Longrightarrow> getExpectTypeFailures sf tas [a] checker quickInfo = Inl DebugFailure"
  by (simp add: getExpectTypeFailures_def Let_def checkTwoSlashAssertion_NaN)

lemma caret_first_token_of_file:
  "twoSlashAssertions (parseAssertions (createSourceFile (''// ^? number'' @ CHR 0x0A # ''f(1);'')
       [ExpressionStatement 13 18 (OtherNode 200 13 17 []), OtherNode 1 18 18 []]))
     = [\<lparr>position = Some (- 1), expected = ''number'', expectedRange = (- 1, - 1),
         expectedPrefix = [], insertSpace = False\<rparr>]"
  by code_simp

lemma caret_first_token_of_file_orphan:
  "getExpectTypeFailures
     (createSourceFile (''// ^? number'' @ CHR 0x0A # ''f(1);'')
        [ExpressionStatement 13 18 (OtherNode 200 13 17 []), OtherNode 1 18 18 []])
     []
     [\<lparr>position = Some (- 1), expected = ''number'', expectedRange = (- 1, - 1),
       expectedPrefix = [], insertSpace = False\<rparr>]
     (\<lambda>n. Some ''number'') (\<lambda>p. Some ''number'')
   = Inr \<lparr>unmetExpectations = [], unusedAssertions = [0], checkerQueries = [],
          languageServiceQueries = []\<rparr>"
  by code_simp

text \<open>
  Claim C8.  A caret assertion whose comment applies to the first line is to be built with
  position \<open>-1\<close>, the empty prefix and the range \<open>(-1, -1)\<close>, and to be reported as an orphan
  at the first line.  The guard \<^verbatim>\<open>commentLine === 1\<close> does this for a caret comment that is
  the first token of the file (\<open>caret_first_token_of_file\<close>,
  \<open>caret_first_token_of_file_orphan\<close>), whose line index is 1.  The comment of the
  one-line file \<^verbatim>\<open>x // ^? number\<close> applies to line 0, the first line, and misses the guard:
  \<^verbatim>\<open>parseAssertions\<close> builds its assertion with the position \<^verbatim>\<open>NaN\<close>, a prefix that is not
  empty and an inserted space, and \<^verbatim>\<open>getExpectTypeFailures\<close>, given what \<^verbatim>\<open>parseAssertions\<close>
  returned, finds no node and throws when it asks for the line of the position, so that
  nothing is reported.
\<close>

theorem trailing_caret_on_first_line_throws:
  "occurrences (createSourceFile ''x // ^? number''
       [ExpressionStatement 0 1 (OtherNode 79 0 1 []), OtherNode 1 14 14 []])
     = [('' ^? number'', 2, 0)]
   \<and> twoSlashAssertions (parseAssertions (createSourceFile ''x // ^? number''
       [ExpressionStatement 0 1 (OtherNode 79 0 1 []), OtherNode 1 14 14 []]))
     = [\<lparr>position = None, expected = ''number'', expectedRange = (- 1, - 1),
         expectedPrefix = ''x //    '', insertSpace = True\<rparr>]
   \<and> getExpectTypeFailures
       (createSourceFile ''x // ^? number''
          [ExpressionStatement 0 1 (OtherNode 79 0 1 []), OtherNode 1 14 14 []])
       (typeAssertions (parseAssertions (createSourceFile ''x // ^? number''
          [ExpressionStatement 0 1 (OtherNode 79 0 1 []), OtherNode 1 14 14 []])))
       (twoSlashAssertions (parseAssertions (createSourceFile ''x // ^? number''
          [ExpressionStatement 0 1 (OtherNode 79 0 1 []), OtherNode 1 14 14 []])))
       (\<lambda>n. Some ''any'') (\<lambda>p. Some ''any'')
     = Inl DebugFailure"
  by code_simp

section \<open>Binding assertions to nodes\<close>


lemma typeQueries_bindAssertion:
  "typeQueries (bindAssertion checker line a n st) = typeQueries st @ [(line, getNodeForExpectType n)]"
  by (simp add: bindAssertion_def Let_def)









text \<open>
  Claim C10.  When the callback reaches an expression statement whose line has a pending
  assertion \<open>a\<close>, the assertion is bound with the inner expression \<open>x\<close> as the node: the
  type checker is asked about \<^verbatim>\<open>getNodeForExpectType\<close> of \<open>x\<close>, which is \<open>x\<close> itself as an
  expression is never a variable statement; an unmet expectation, if there is one, carries
  \<open>x\<close> as its node; and the traversal goes on with the children of \<open>x\<close>.
\<close>

theorem expression_statement_checks_inner_expression:
  assumes "map_of (pending st) (lineOfPosition s sf) = Some a"
  shows "iterate sf checker (ExpressionStatement s e x) st =
           iterateAll sf checker (forEachChild x) (bindAssertion checker (lineOfPosition s sf) a x st)
       \<and> typeQueries (bindAssertion checker (lineOfPosition s sf) a x st)
           = typeQueries st @ [(lineOfPosition s sf, getNodeForExpectType x)]
       \<and> (unmet (bindAssertion checker (lineOfPosition s sf) a x st) = unmet st
          \<or> unmet (bindAssertion checker (lineOfPosition s sf) a x st)
              = unmet st @ [UnmetExpectation a x (case checker (getNodeForExpectType x) of Some t \<Rightarrow> t | None \<Rightarrow> [])])
       \<and> ((\<forall>s' e' ms dl. x \<noteq> VariableStatement s' e' ms dl) \<longrightarrow> getNodeForExpectType x = x)"
proof -
  have 1: "iterate sf checker (ExpressionStatement s e x) st =
           iterateAll sf checker (forEachChild x) (bindAssertion checker (lineOfPosition s sf) a x st)"
    using assms by (simp add: iterate.simps)
  have 3: "unmet (bindAssertion checker (lineOfPosition s sf) a x st) = unmet st
          \<or> unmet (bindAssertion checker (lineOfPosition s sf) a x st)
              = unmet st @ [UnmetExpectation a x (case checker (getNodeForExpectType x) of Some t \<Rightarrow> t | None \<Rightarrow> [])]"
    by (simp add: bindAssertion_def Let_def)
  have 4: "(\<forall>s' e' ms dl. x \<noteq> VariableStatement s' e' ms dl) \<longrightarrow> getNodeForExpectType x = x"
    by (cases x) auto
  from 1 typeQueries_bindAssertion [of checker "lineOfPosition s sf" a x st] 3 4 show ?thesis by blast
qed



theorem expression_statement_checks_inner_expression_witness:
  "iterate (createSourceFile (''// $ExpectType number'' @ CHR 0x0A # ''f(1);'') [(ExpressionStatement 22 27 (OtherNode 200 22 26 [OtherNode 75 22 23 [], OtherNode 8 24 25 []])), OtherNode 1 27 27 []]) (\<lambda>n. Some ''string'') (ExpressionStatement 22 27 (OtherNode 200 22 26 [OtherNode 75 22 23 [], OtherNode 8 24 25 []])) \<lparr>pending = [(1, Manual ''number'')], unmet = [], typeQueries = []\<rparr> =
           iterateAll (createSourceFile (''// $ExpectType number'' @ CHR 0x0A # ''f(1);'') [(ExpressionStatement 22 27 (OtherNode 200 22 26 [OtherNode 75 22 23 [], OtherNode 8 24 25 []])), OtherNode 1 27 27 []]) (\<lambda>n. Some ''string'') (forEachChild (OtherNode 200 22 26 [OtherNode 75 22 23 [], OtherNode 8 24 25 []])) (bindAssertion (\<lambda>n. Some ''string'') (lineOfPosition 22 (createSourceFile (''// $ExpectType number'' @ CHR 0x0A # ''f(1);'') [(ExpressionStatement 22 27 (OtherNode 200 22 26 [OtherNode 75 22 23 [], OtherNode 8 24 25 []])), OtherNode 1 27 27 []])) (Manual ''number'') (OtherNode 200 22 26 [OtherNode 75 22 23 [], OtherNode 8 24 25 []]) \<lparr>pending = [(1, Manual ''number'')], unmet = [], typeQueries = []\<rparr>)
       \<and> typeQueries (bindAssertion (\<lambda>n. Some ''string'') (lineOfPosition 22 (createSourceFile (''// $ExpectType number'' @ CHR 0x0A # ''f(1);'') [(ExpressionStatement 22 27 (OtherNode 200 22 26 [OtherNode 75 22 23 [], OtherNode 8 24 25 []])), OtherNode 1 27 27 []])) (Manual ''number'') (OtherNode 200 22 26 [OtherNode 75 22 23 [], OtherNode 8 24 25 []]) \<lparr>pending = [(1, Manual ''number'')], unmet = [], typeQueries = []\<rparr>)
           = typeQueries \<lparr>pending = [(1, Manual ''number'')], unmet = [], typeQueries = []\<rparr> @ [(lineOfPosition 22 (createSourceFile (''// $ExpectType number'' @ CHR 0x0A # ''f(1);'') [(ExpressionStatement 22 27 (OtherNode 200 22 26 [OtherNode 75 22 23 [], OtherNode 8 24 25 []])), OtherNode 1 27 27 []]), getNodeForExpectType (OtherNode 200 22 26 [OtherNode 75 22 23 [], OtherNode 8 24 25 []]))]
       \<and> (unmet (bindAssertion (\<lambda>n. Some ''string'') (lineOfPosition 22 (createSourceFile (''// $ExpectType number'' @ CHR 0x0A # ''f(1);'') [(ExpressionStatement 22 27 (OtherNode 200 22 26 [OtherNode 75 22 23 [], OtherNode 8 24 25 []])), OtherNode 1 27 27 []])) (Manual ''number'') (OtherNode 200 22 26 [OtherNode 75 22 23 [], OtherNode 8 24 25 []]) \<lparr>pending = [(1, Manual ''number'')], unmet = [], typeQueries = []\<rparr>) = unmet \<lparr>pending = [(1, Manual ''number'')], unmet = [], typeQueries = []\<rparr>
          \<or> unmet (bindAssertion (\<lambda>n. Some ''string'') (lineOfPosition 22 (createSourceFile (''// $ExpectType number'' @ CHR 0x0A # ''f(1);'') [(ExpressionStatement 22 27 (OtherNode 200 22 26 [OtherNode 75 22 23 [], OtherNode 8 24 25 []])), OtherNode 1 27 27 []])) (Manual ''number'') (OtherNode 200 22 26 [OtherNode 75 22 23 [], OtherNode 8 24 25 []]) \<lparr>pending = [(1, Manual ''number'')], unmet = [], typeQueries = []\<rparr>)
              = unmet \<lparr>pending = [(1, Manual ''number'')], unmet = [], typeQueries = []\<rparr> @ [UnmetExpectation (Manual ''number'') (OtherNode 200 22 26 [OtherNode 75 22 23 [], OtherNode 8 24 25 []]) (case (\<lambda>n. Some ''string'') (getNodeForExpectType (OtherNode 200 22 26 [OtherNode 75 22 23 [], OtherNode 8 24 25 []])) of Some t \<Rightarrow> t | None \<Rightarrow> [])])
       \<and> getNodeForExpectType (OtherNode 200 22 26 [OtherNode 75 22 23 [], OtherNode 8 24 25 []]) = (OtherNode 200 22 26 [OtherNode 75 22 23 [], OtherNode 8 24 25 []])"
proof -
  have h: "map_of (pending \<lparr>pending = [(1, Manual ''number'')], unmet = [], typeQueries = []\<rparr>) (lineOfPosition 22 (createSourceFile (''// $ExpectType number'' @ CHR 0x0A # ''f(1);'') [(ExpressionStatement 22 27 (OtherNode 200 22 26 [OtherNode 75 22 23 [], OtherNode 8 24 25 []])), OtherNode 1 27 27 []])) = Some (Manual ''number'')"
    by code_simp
  have x: "\<forall>s' e' ms dl. (OtherNode 200 22 26 [OtherNode 75 22 23 [], OtherNode 8 24 25 []]) \<noteq> VariableStatement s' e' ms dl" by simp
  note t = expression_statement_checks_inner_expression [OF h, of "\<lambda>n. Some ''string''" 27 "OtherNode 200 22 26 [OtherNode 75 22 23 [], OtherNode 8 24 25 []]"]
  note c1 = t [THEN conjunct1]
  note c2 = t [THEN conjunct2, THEN conjunct1]
  note c3 = t [THEN conjunct2, THEN conjunct2, THEN conjunct1]
  note c4 = t [THEN conjunct2, THEN conjunct2, THEN conjunct2, THEN mp, OF x]
  show ?thesis by (intro conjI c1 c2 c3 c4)
qed

lemma traversal_example:
  "getExpectTypeFailures (createSourceFile (''// $ExpectType number'' @ CHR 0x0A # ''f(1);'') [(ExpressionStatement 22 27 (OtherNode 200 22 26 [OtherNode 75 22 23 [], OtherNode 8 24 25 []])), OtherNode 1 27 27 []]) [(1, Manual ''number'')] [] (\<lambda>n. Some ''string'') (\<lambda>p. None) =
     Inr \<lparr>unmetExpectations = [UnmetExpectation (Manual ''number'') (OtherNode 200 22 26 [OtherNode 75 22 23 [], OtherNode 8 24 25 []]) ''string''],
          unusedAssertions = [], checkerQueries = [(1, (OtherNode 200 22 26 [OtherNode 75 22 23 [], OtherNode 8 24 25 []]))], languageServiceQueries = []\<rparr>"
  by code_simp

section \<open>Line starts and the number of comments that apply to a line\<close>

lemma lineStarts_cases:
  obtains (nil) "cs = []"
  | (crlf) ds where "cs = CHR 0x0D # CHR 0x0A # ds"
  | (cr) d ds where "cs = CHR 0x0D # d # ds" "d \<noteq> CHR 0x0A"
  | (cr1) "cs = [CHR 0x0D]"
  | (lf) cs' where "cs = CHR 0x0A # cs'"
  | (other) c cs' where "cs = c # cs'" "c \<noteq> CHR 0x0D" "c \<noteq> CHR 0x0A"
proof (cases cs)
  case Nil
  then show ?thesis by (rule nil)
next
  case (Cons c cs')
  show ?thesis
  proof (cases "c = CHR 0x0D")
    case True
    show ?thesis
    proof (cases cs')
      case Nil
      with Cons True show ?thesis by (intro cr1) simp
    next
      case (Cons d ds)
      show ?thesis
      proof (cases "d = CHR 0x0A")
        case True
        with \<open>c = CHR 0x0D\<close> \<open>cs = c # cs'\<close> Cons show ?thesis by (intro crlf [of ds]) simp
      next
        case False
        with \<open>c = CHR 0x0D\<close> \<open>cs = c # cs'\<close> Cons show ?thesis by (intro cr [of d ds]) simp_all
      qed
    qed
  next
    case False
    show ?thesis
    proof (cases "c = CHR 0x0A")
      case True
      with Cons show ?thesis by (intro lf [of cs']) simp
    next
      case F2: False
      with Cons False show ?thesis by (intro other [of c cs']) simp_all
    qed
  qed
qed

lemma computeLineStartsFrom_crlf:
  "computeLineStartsFrom pos l (CHR 0x0D # CHR 0x0A # ds) = l # computeLineStartsFrom (pos + 2) (pos + 2) ds"
  by simp

lemma computeLineStartsFrom_cr:
  "d \<noteq> CHR 0x0A \<Longrightarrow>
   computeLineStartsFrom pos l (CHR 0x0D # d # ds) = l # computeLineStartsFrom (pos + 1) (pos + 1) (d # ds)"
  by simp

lemma computeLineStartsFrom_cr1:
  "computeLineStartsFrom pos l [CHR 0x0D] = [l, pos + 1]"
  by simp

lemma computeLineStartsFrom_lf:
  "computeLineStartsFrom pos l (CHR 0x0A # cs) = l # computeLineStartsFrom (pos + 1) (pos + 1) cs"
  by simp

lemma computeLineStartsFrom_other:
  "c \<noteq> CHR 0x0D \<Longrightarrow> c \<noteq> CHR 0x0A \<Longrightarrow>
   computeLineStartsFrom pos l (c # cs) = computeLineStartsFrom (pos + 1) l cs"
  by simp

lemmas computeLineStartsFrom_eqs =
  computeLineStartsFrom_crlf computeLineStartsFrom_cr computeLineStartsFrom_cr1
  computeLineStartsFrom_lf computeLineStartsFrom_other

declare computeLineStartsFrom.simps(2) [simp del]

lemma computeLineStartsFrom_hd: "l \<in> set (computeLineStartsFrom pos l cs)"
proof (induction cs arbitrary: pos rule: length_induct)
  case (1 cs)
  show ?case
    by (cases cs rule: lineStarts_cases) (use 1 in \<open>simp_all add: computeLineStartsFrom_eqs\<close>)
qed

lemma computeLineStartsFrom_elems:
  "q \<in> set (computeLineStartsFrom pos l cs) \<Longrightarrow> q = l \<or> pos < q"
proof (induction cs arbitrary: pos l rule: length_induct)
  case (1 cs)
  then have ih: "\<And>ys p l'. length ys < length cs \<Longrightarrow> q \<in> set (computeLineStartsFrom p l' ys) \<Longrightarrow> q = l' \<or> p < q"
    by blast
  show ?case
  proof (cases cs rule: lineStarts_cases)
    case nil
    with "1.prems" show ?thesis by simp
  next
    case (crlf ds)
    with "1.prems" have "q = l \<or> q \<in> set (computeLineStartsFrom (pos + 2) (pos + 2) ds)"
      by (simp add: computeLineStartsFrom_eqs)
    with ih [of ds "pos + 2" "pos + 2"] crlf show ?thesis by auto
  next
    case (cr d ds)
    with "1.prems" have "q = l \<or> q \<in> set (computeLineStartsFrom (pos + 1) (pos + 1) (d # ds))"
      by (simp add: computeLineStartsFrom_eqs)
    with ih [of "d # ds" "pos + 1" "pos + 1"] cr show ?thesis by auto
  next
    case cr1
    with "1.prems" show ?thesis by (auto simp: computeLineStartsFrom_eqs)
  next
    case (lf cs')
    with "1.prems" have "q = l \<or> q \<in> set (computeLineStartsFrom (pos + 1) (pos + 1) cs')"
      by (simp add: computeLineStartsFrom_eqs)
    with ih [of cs' "pos + 1" "pos + 1"] lf show ?thesis by auto
  next
    case (other c cs')
    with "1.prems" have "q \<in> set (computeLineStartsFrom (pos + 1) l cs')"
      by (simp add: computeLineStartsFrom_eqs)
    with ih [of cs' "pos + 1" l] other show ?thesis by auto
  qed
qed

lemma sorted_Cons_computeLineStartsFrom:
  assumes "l \<le> pos" "pos < p" "sorted (computeLineStartsFrom p p xs)"
  shows "sorted (l # computeLineStartsFrom p p xs)"
proof -
  have "l \<le> q" if "q \<in> set (computeLineStartsFrom p p xs)" for q
    using computeLineStartsFrom_elems [OF that] assms(1,2) by auto
  with assms(3) show ?thesis by simp
qed

lemma computeLineStartsFrom_sorted:
  "l \<le> pos \<Longrightarrow> sorted (computeLineStartsFrom pos l cs)"
proof (induction cs arbitrary: pos l rule: length_induct)
  case (1 cs)
  then have ih: "\<And>ys p l'. length ys < length cs \<Longrightarrow> l' \<le> p \<Longrightarrow> sorted (computeLineStartsFrom p l' ys)"
    by blast
  show ?case
  proof (cases cs rule: lineStarts_cases)
    case nil
    then show ?thesis by simp
  next
    case (crlf ds)
    have "sorted (l # computeLineStartsFrom (pos + 2) (pos + 2) ds)"
      by (rule sorted_Cons_computeLineStartsFrom [OF "1.prems"]) (use ih [of ds "pos + 2" "pos + 2"] crlf in auto)
    with crlf show ?thesis by (simp add: computeLineStartsFrom_eqs)
  next
    case (cr d ds)
    have "sorted (l # computeLineStartsFrom (pos + 1) (pos + 1) (d # ds))"
      by (rule sorted_Cons_computeLineStartsFrom [OF "1.prems"]) (use ih [of "d # ds" "pos + 1" "pos + 1"] cr in auto)
    with cr show ?thesis by (simp add: computeLineStartsFrom_eqs)
  next
    case cr1
    with "1.prems" show ?thesis by (simp add: computeLineStartsFrom_eqs)
  next
    case (lf cs')
    have "sorted (l # computeLineStartsFrom (pos + 1) (pos + 1) cs')"
      by (rule sorted_Cons_computeLineStartsFrom [OF "1.prems"]) (use ih [of cs' "pos + 1" "pos + 1"] lf in auto)
    with lf show ?thesis by (simp add: computeLineStartsFrom_eqs)
  next
    case (other c cs')
    have "sorted (computeLineStartsFrom (pos + 1) l cs')"
      by (rule ih) (use other "1.prems" in auto)
    with other show ?thesis by (simp add: computeLineStartsFrom_eqs)
  qed
qed


lemma terminator_shift:
  assumes "\<exists>q\<in>set R. p + d + k' < q \<and>
             (q \<le> p + d + k' + 1 \<or> (q = p + d + k' + 2 \<and> k' + 1 < length ys \<and> ys ! (k' + 1) = CHR 0x0A))"
    and "set R \<subseteq> set R'" and "length xs = d" and "cs = xs @ ys"
  shows "\<exists>q\<in>set R'. p + (d + k') < q \<and>
             (q \<le> p + (d + k') + 1 \<or> (q = p + (d + k') + 2 \<and> (d + k') + 1 < length cs \<and> cs ! ((d + k') + 1) = CHR 0x0A))"
proof -
  from assms(1) obtain q where q: "q \<in> set R" "p + d + k' < q"
    "q \<le> p + d + k' + 1 \<or> (q = p + d + k' + 2 \<and> k' + 1 < length ys \<and> ys ! (k' + 1) = CHR 0x0A)"
    by blast
  have nth: "cs ! ((d + k') + 1) = ys ! (k' + 1)"
    unfolding assms(4) using assms(3) by (simp add: nth_append)
  have len: "k' + 1 < length ys \<Longrightarrow> (d + k') + 1 < length cs"
    unfolding assms(4) using assms(3) by simp
  from q(1) assms(2) have "q \<in> set R'" by blast
  moreover have "p + (d + k') < q" using q(2) by simp
  moreover have "q \<le> p + (d + k') + 1 \<or> (q = p + (d + k') + 2 \<and> (d + k') + 1 < length cs \<and> cs ! ((d + k') + 1) = CHR 0x0A)"
    using q(3) nth len by auto
  ultimately show ?thesis by blast
qed

lemma computeLineStartsFrom_terminator:
  "k < length cs \<Longrightarrow> isLineTerminator (cs ! k) \<Longrightarrow>
   \<exists>q\<in>set (computeLineStartsFrom pos l cs).
     pos + k < q \<and> (q \<le> pos + k + 1 \<or> (q = pos + k + 2 \<and> k + 1 < length cs \<and> cs ! (k + 1) = CHR 0x0A))"
proof (induction cs arbitrary: pos l k rule: length_induct)
  case (1 cs)
  have ih: "\<exists>q\<in>set (computeLineStartsFrom p l' ys).
     p + k' < q \<and> (q \<le> p + k' + 1 \<or> (q = p + k' + 2 \<and> k' + 1 < length ys \<and> ys ! (k' + 1) = CHR 0x0A))"
    if "length ys < length cs" "k' < length ys" "isLineTerminator (ys ! k')" for ys p l' k'
    using 1 that by blast
  show ?case
  proof (cases cs rule: lineStarts_cases)
    case nil
    with "1.prems" show ?thesis by simp
  next
    case (crlf ds)
    let ?R = "computeLineStartsFrom (pos + 2) (pos + 2) ds"
    have res: "computeLineStartsFrom pos l cs = l # ?R"
      by (simp add: crlf computeLineStartsFrom_eqs)
    have hd: "pos + 2 \<in> set (computeLineStartsFrom pos l cs)"
      unfolding res using computeLineStartsFrom_hd [of "pos + 2" "pos + 2" ds] by simp
    consider "k = 0" | "k = 1" | k' where "k = 2 + k'"
      by (metis One_nat_def Suc_1 add_2_eq_Suc not0_implies_Suc)
    then show ?thesis
    proof cases
      case 1
      show ?thesis by (rule bexI [OF _ hd]) (simp add: 1 crlf)
    next
      case 2
      show ?thesis by (rule bexI [OF _ hd]) (simp add: 2 crlf)
    next
      case 3
      have a: "k' < length ds" "isLineTerminator (ds ! k')"
        using "1.prems" 3 crlf by auto
      have ex: "\<exists>q\<in>set ?R. pos + 2 + k' < q \<and>
             (q \<le> pos + 2 + k' + 1 \<or> (q = pos + 2 + k' + 2 \<and> k' + 1 < length ds \<and> ds ! (k' + 1) = CHR 0x0A))"
        by (rule ih [OF _ a]) (simp add: crlf)
      have sub: "set ?R \<subseteq> set (computeLineStartsFrom pos l cs)" unfolding res by auto
      have len: "length [CHR 0x0D, CHR 0x0A] = 2" by simp
      have app: "cs = [CHR 0x0D, CHR 0x0A] @ ds" by (simp add: crlf)
      show ?thesis unfolding 3 by (rule terminator_shift [OF ex sub len app])
    qed
  next
    case (cr d ds)
    let ?R = "computeLineStartsFrom (pos + 1) (pos + 1) (d # ds)"
    have res: "computeLineStartsFrom pos l cs = l # ?R"
      by (simp add: cr computeLineStartsFrom_eqs)
    have hd: "pos + 1 \<in> set (computeLineStartsFrom pos l cs)"
      unfolding res using computeLineStartsFrom_hd [of "pos + 1" "pos + 1" "d # ds"] by simp
    consider "k = 0" | k' where "k = 1 + k'"
      by (metis One_nat_def add.commute add_Suc_right add_0_right not0_implies_Suc)
    then show ?thesis
    proof cases
      case 1
      show ?thesis by (rule bexI [OF _ hd]) (simp add: 1)
    next
      case 2
      have a: "k' < length (d # ds)" "isLineTerminator ((d # ds) ! k')"
        using "1.prems" 2 cr by auto
      have ex: "\<exists>q\<in>set ?R. pos + 1 + k' < q \<and>
             (q \<le> pos + 1 + k' + 1 \<or> (q = pos + 1 + k' + 2 \<and> k' + 1 < length (d # ds) \<and> (d # ds) ! (k' + 1) = CHR 0x0A))"
        by (rule ih [OF _ a]) (simp add: cr)
      have sub: "set ?R \<subseteq> set (computeLineStartsFrom pos l cs)" unfolding res by auto
      have len: "length [CHR 0x0D] = 1" by simp
      have app: "cs = [CHR 0x0D] @ (d # ds)" by (simp add: cr)
      show ?thesis unfolding 2 by (rule terminator_shift [OF ex sub len app])
    qed
  next
    case cr1
    have hd: "pos + 1 \<in> set (computeLineStartsFrom pos l cs)"
      by (simp add: cr1 computeLineStartsFrom_eqs)
    from "1.prems" cr1 have k: "k = 0" by simp
    show ?thesis by (rule bexI [OF _ hd]) (simp add: k)
  next
    case (lf cs')
    let ?R = "computeLineStartsFrom (pos + 1) (pos + 1) cs'"
    have res: "computeLineStartsFrom pos l cs = l # ?R"
      by (simp add: lf computeLineStartsFrom_eqs)
    have hd: "pos + 1 \<in> set (computeLineStartsFrom pos l cs)"
      unfolding res using computeLineStartsFrom_hd [of "pos + 1" "pos + 1" cs'] by simp
    consider "k = 0" | k' where "k = 1 + k'"
      by (metis One_nat_def add.commute add_Suc_right add_0_right not0_implies_Suc)
    then show ?thesis
    proof cases
      case 1
      show ?thesis by (rule bexI [OF _ hd]) (simp add: 1)
    next
      case 2
      have a: "k' < length cs'" "isLineTerminator (cs' ! k')"
        using "1.prems" 2 lf by auto
      have ex: "\<exists>q\<in>set ?R. pos + 1 + k' < q \<and>
             (q \<le> pos + 1 + k' + 1 \<or> (q = pos + 1 + k' + 2 \<and> k' + 1 < length cs' \<and> cs' ! (k' + 1) = CHR 0x0A))"
        by (rule ih [OF _ a]) (simp add: lf)
      have sub: "set ?R \<subseteq> set (computeLineStartsFrom pos l cs)" unfolding res by auto
      have len: "length [CHR 0x0A] = 1" by simp
      have app: "cs = [CHR 0x0A] @ cs'" by (simp add: lf)
      show ?thesis unfolding 2 by (rule terminator_shift [OF ex sub len app])
    qed
  next
    case (other c cs')
    let ?R = "computeLineStartsFrom (pos + 1) l cs'"
    have res: "computeLineStartsFrom pos l cs = ?R"
      by (simp add: other computeLineStartsFrom_eqs)
    from "1.prems" other obtain k' where k: "k = 1 + k'"
      by (cases k) (auto simp: isLineTerminator_def)
    have a: "k' < length cs'" "isLineTerminator (cs' ! k')"
      using "1.prems" k other by auto
    have ex: "\<exists>q\<in>set ?R. pos + 1 + k' < q \<and>
           (q \<le> pos + 1 + k' + 1 \<or> (q = pos + 1 + k' + 2 \<and> k' + 1 < length cs' \<and> cs' ! (k' + 1) = CHR 0x0A))"
      by (rule ih [OF _ a]) (simp add: other)
    have sub: "set ?R \<subseteq> set (computeLineStartsFrom pos l cs)" unfolding res by auto
    have len: "length [c] = 1" by simp
    have app: "cs = [c] @ cs'" by (simp add: other)
    show ?thesis unfolding k by (rule terminator_shift [OF ex sub len app])
  qed
qed


lemma computeLineStartsFrom_Cons:
  "\<exists>rest. computeLineStartsFrom pos l cs = l # rest"
proof (induction cs arbitrary: pos rule: length_induct)
  case (1 cs)
  show ?case
    by (cases cs rule: lineStarts_cases) (use 1 in \<open>simp_all add: computeLineStartsFrom_eqs\<close>)
qed

lemma computeLineStarts_sorted: "sorted (computeLineStarts s)"
  by (simp add: computeLineStarts_def computeLineStartsFrom_sorted)

lemma computeLineStarts_first: "0 < length (computeLineStarts s) \<and> computeLineStarts s ! 0 = 0"
  using computeLineStartsFrom_Cons [of 0 0 s] by (auto simp: computeLineStarts_def)

lemma computeLineStarts_terminator:
  "n < length s \<Longrightarrow> isLineTerminator (s ! n) \<Longrightarrow>
   \<exists>q\<in>set (computeLineStarts s). n < q \<and> (q \<le> n + 1 \<or> (q = n + 2 \<and> n + 1 < length s \<and> s ! (n + 1) = CHR 0x0A))"
  using computeLineStartsFrom_terminator [of n s 0 0] by (simp add: computeLineStarts_def)

lemma findComment_props:
  "findComment s i = Some j \<Longrightarrow> i \<le> j \<and> j + 1 < length s \<and> s ! j = CHR ''/''"
proof (induction s i rule: findComment.induct)
  case (1 s i)
  then show ?case
    by (subst (asm) (2) findComment.simps) (auto split: if_splits)
qed

lemma commentRegexpExec_props:
  assumes "commentRegexpExec s i = Some (idx, c, n)"
  shows "i \<le> idx" "idx + 1 < length s" "s ! idx = CHR ''/''" "idx + 2 \<le> n" "n \<le> length s"
    "n < length s \<longrightarrow> isLineTerminator (s ! n)"
proof -
  from assms obtain k where k: "findComment s i = Some k"
    by (auto simp: commentRegexpExec_def split: option.splits)
  from assms k have j: "idx = k" and n: "n = k + 2 + length c"
    and c: "c = takeWhile (\<lambda>c. \<not> isLineTerminator c) (drop (k + 2) s)"
    by (auto simp: commentRegexpExec_def Let_def)
  from findComment_props [OF k] j show "i \<le> idx" "idx + 1 < length s" "s ! idx = CHR ''/''" by auto
  show "idx + 2 \<le> n" using j n by simp
  have le: "length c \<le> length (drop (k + 2) s)"
    unfolding c by (rule length_takeWhile_le)
  with findComment_props [OF k] n show "n \<le> length s" by auto
  show "n < length s \<longrightarrow> isLineTerminator (s ! n)"
  proof
    assume lt: "n < length s"
    let ?xs = "drop (k + 2) s"
    have "length c < length ?xs" using lt n by simp
    then have "\<not> (\<lambda>c. \<not> isLineTerminator c) (?xs ! length c)"
      unfolding c by (rule nth_length_takeWhile)
    moreover have "?xs ! length c = s ! n" using lt n by (simp add: add.assoc)
    ultimately show "isLineTerminator (s ! n)" by simp
  qed
qed

lemma advanceCurLine_props:
  "cl \<le> advanceCurLine ls cl p
   \<and> (cl < advanceCurLine ls cl p \<longrightarrow>
        advanceCurLine ls cl p < length ls \<and> ls ! advanceCurLine ls cl p \<le> p)
   \<and> (cl + 1 < length ls \<and> ls ! (cl + 1) \<le> p \<longrightarrow> cl < advanceCurLine ls cl p)"
proof (induction ls cl p rule: advanceCurLine.induct)
  case (1 ls cl p)
  show ?case
  proof (cases "cl + 1 < length ls \<and> ls ! (cl + 1) \<le> p")
    case True
    then have eq: "advanceCurLine ls cl p = advanceCurLine ls (cl + 1) p"
      by (subst advanceCurLine.simps) simp
    from "1.IH" [OF True] True show ?thesis
      unfolding eq by (cases "cl + 1 = advanceCurLine ls (cl + 1) p") auto
  next
    case False
    then have eq: "advanceCurLine ls cl p = cl"
      by (subst advanceCurLine.simps) auto
    with False show ?thesis by simp
  qed
qed

lemma getLine_props:
  "getLine sf cl idx = (ln, cl') \<Longrightarrow>
   cl' = advanceCurLine (lineStarts sf) cl idx \<and> (ln = cl' \<or> ln = cl' + 1)"
  by (auto simp: getLine_def Let_def split: if_splits)

lemma next_comment_on_later_line:
  assumes wf: "ls = computeLineStarts s"
    and e1: "commentRegexpExec s i = Some (idx, c, n)"
    and cl: "cl' < length ls" "ls ! cl' \<le> idx"
    and e2: "commentRegexpExec s n = Some (idx2, c2, n2)"
  shows "cl' + 1 < length ls \<and> ls ! (cl' + 1) \<le> idx2"
proof -
  note p1 = commentRegexpExec_props [OF e1]
  note p2 = commentRegexpExec_props [OF e2]
  have n: "n < length s" using p2(1,2) by simp
  with p1(6) have t: "isLineTerminator (s ! n)" by simp
  have "idx2 \<noteq> n" using t p2(3) by (auto simp: isLineTerminator_def)
  with p2(1) have lt: "n < idx2" by simp
  from computeLineStarts_terminator [OF n t] obtain q where
    q: "q \<in> set ls" "n < q" "q \<le> n + 1 \<or> (q = n + 2 \<and> n + 1 < length s \<and> s ! (n + 1) = CHR 0x0A)"
    unfolding wf by blast
  have qle: "q \<le> idx2"
  proof (cases "q \<le> n + 1")
    case True
    with lt show ?thesis by simp
  next
    case False
    with q(3) have q2: "q = n + 2" and lf: "s ! (n + 1) = CHR 0x0A" by auto
    have "idx2 \<noteq> n + 1" using lf p2(3) by auto
    with lt q2 show ?thesis by simp
  qed
  from q(1) obtain m where m: "m < length ls" "ls ! m = q"
    by (auto simp: in_set_conv_nth)
  have sorted: "sorted ls" unfolding wf by (rule computeLineStarts_sorted)
  have "cl' < m"
  proof (rule ccontr)
    assume "\<not> cl' < m"
    then have "m \<le> cl'" by simp
    from sorted_nth_mono [OF sorted this cl(1)] m(2) have "q \<le> ls ! cl'" by simp
    with cl(2) p1(4) q(2) show False by simp
  qed
  then have a: "cl' + 1 \<le> m" by simp
  with m(1) have b: "cl' + 1 < length ls" by simp
  from sorted_nth_mono [OF sorted a m(1)] m(2) qle have "ls ! (cl' + 1) \<le> idx2" by simp
  with b show ?thesis by simp
qed


lemma occurrencesFrom_later:
  "lineStarts sf = computeLineStarts (sourceText sf) \<Longrightarrow>
   (\<forall>idx c n. commentRegexpExec (sourceText sf) i = Some (idx, c, n) \<longrightarrow>
            cl + 1 < length (lineStarts sf) \<and> lineStarts sf ! (cl + 1) \<le> idx) \<Longrightarrow>
   length (filter (\<lambda>(c, idx, ln). ln = l) (occurrencesFrom sf i cl))
     \<le> (if l \<le> cl then 0 else if l = cl + 1 then 1 else 2)"
proof (induction sf i cl rule: occurrencesFrom.induct)
  case (1 sf lastIndex curLine)
  show ?case
  proof (cases "commentRegexpExec (sourceText sf) lastIndex")
    case None
    then show ?thesis by (subst occurrencesFrom.simps) simp
  next
    case (Some r)
    obtain idx c n where r: "r = (idx, c, n)" by (cases r) auto
    obtain ln cl' where g: "getLine sf curLine idx = (ln, cl')"
      by (cases "getLine sf curLine idx") auto
    note e1 = Some [unfolded r]
    from "1.prems"(2) e1 have inv: "curLine + 1 < length (lineStarts sf)" "lineStarts sf ! (curLine + 1) \<le> idx"
      by auto
    from getLine_props [OF g] have cl': "cl' = advanceCurLine (lineStarts sf) curLine idx"
      and ln: "ln = cl' \<or> ln = cl' + 1" by auto
    from advanceCurLine_props [of curLine "lineStarts sf" idx] inv cl'
    have adv: "curLine < cl'" "cl' < length (lineStarts sf)" "lineStarts sf ! cl' \<le> idx"
      by auto
    have next_inv: "\<forall>idx2 c2 n2. commentRegexpExec (sourceText sf) n = Some (idx2, c2, n2) \<longrightarrow>
            cl' + 1 < length (lineStarts sf) \<and> lineStarts sf ! (cl' + 1) \<le> idx2"
      using next_comment_on_later_line [OF "1.prems"(1) e1 adv(2,3)] by blast
    have ih: "length (filter (\<lambda>(c, idx, ln). ln = l) (occurrencesFrom sf n cl'))
           \<le> (if l \<le> cl' then 0 else if l = cl' + 1 then 1 else 2)"
      using "1.IH" [OF Some r [symmetric] refl g [symmetric] "1.prems"(1) next_inv] .
    have unfold: "occurrencesFrom sf lastIndex curLine = (c, idx, ln) # occurrencesFrom sf n cl'"
      by (subst occurrencesFrom.simps) (simp add: Some r g)
    show ?thesis
      unfolding unfold using ih ln adv(1) by (auto split: if_splits)
  qed
qed


lemma occurrences_at_most_two:
  assumes wf: "lineStarts sf = computeLineStarts (sourceText sf)"
  shows "length (filter (\<lambda>(c, idx, ln). ln = l) (occurrences sf)) \<le> 2"
proof (cases "commentRegexpExec (sourceText sf) 0")
  case None
  then show ?thesis unfolding occurrences_def by (subst occurrencesFrom.simps) simp
next
  case (Some r)
  obtain idx c n where r: "r = (idx, c, n)" by (cases r) auto
  obtain ln cl' where g: "getLine sf 0 idx = (ln, cl')"
    by (cases "getLine sf 0 idx") auto
  note e1 = Some [unfolded r]
  from getLine_props [OF g] have cl': "cl' = advanceCurLine (lineStarts sf) 0 idx"
    and ln: "ln = cl' \<or> ln = cl' + 1" by auto
  have adv: "cl' < length (lineStarts sf) \<and> lineStarts sf ! cl' \<le> idx"
  proof (cases "0 < cl'")
    case True
    with advanceCurLine_props [of 0 "lineStarts sf" idx] cl' show ?thesis by auto
  next
    case False
    with computeLineStarts_first [of "sourceText sf"] wf show ?thesis by simp
  qed
  then have adv1: "cl' < length (lineStarts sf)" and adv2: "lineStarts sf ! cl' \<le> idx" by auto
  have next_inv: "\<forall>idx2 c2 n2. commentRegexpExec (sourceText sf) n = Some (idx2, c2, n2) \<longrightarrow>
          cl' + 1 < length (lineStarts sf) \<and> lineStarts sf ! (cl' + 1) \<le> idx2"
    using next_comment_on_later_line [OF wf e1 adv1 adv2] by blast
  have rest: "length (filter (\<lambda>(c, idx, ln). ln = l) (occurrencesFrom sf n cl'))
         \<le> (if l \<le> cl' then 0 else if l = cl' + 1 then 1 else 2)"
    by (rule occurrencesFrom_later [OF wf next_inv])
  have unfold: "occurrences sf = (c, idx, ln) # occurrencesFrom sf n cl'"
    unfolding occurrences_def by (subst occurrencesFrom.simps) (simp add: Some r g)
  show ?thesis
    unfolding unfold using rest ln by (auto split: if_splits)
qed

lemma directives_le_occurrences:
  "length (typeDirectivesAt l os) + errorDirectivesAt l os
     \<le> length (filter (\<lambda>(c, idx, ln). ln = l) os)"
proof (induction os)
  case Nil
  show ?case by (simp add: typeDirectivesAt_def errorDirectivesAt_def)
next
  case (Cons oc os)
  obtain c i ln where oc: "oc = (c, i, ln)" by (cases oc) auto
  show ?case
  proof (cases "typeDirective c")
    case None
    with Cons show ?thesis
      unfolding oc typeDirectivesAt_Cons errorDirectivesAt_Cons by simp
  next
    case (Some a)
    with Cons typeDirective_not_error [OF Some] show ?thesis
      unfolding oc typeDirectivesAt_Cons errorDirectivesAt_Cons by simp
  qed
qed

lemma at_most_two_directives:
  assumes "lineStarts sf = computeLineStarts (sourceText sf)"
  shows "length (typeDirectivesOn sf l) + errorDirectivesOn sf l \<le> 2"
  using directives_le_occurrences [of l "occurrences sf"] occurrences_at_most_two [OF assms, of l]
  by (simp add: typeDirectivesOn_def errorDirectivesOn_def)


text \<open>
  Claim C2, amended.  In a source file whose line starts are those that the TypeScript
  scanner computes, take any line.  If two or more type directives with a payload apply
  to it, the map of type assertions has no entry for the line after parsing and the line
  occurs exactly once among the duplicates.  If two or more \<^verbatim>\<open>$ExpectError\<close> directives
  apply to it, the line occurs exactly once among the duplicates and stays in the set of
  error lines.  No line has more than two directives, as a comment applies to its own
  line or to the next one and a physical line holds one comment.
\<close>

theorem two_or_more_directives_on_one_line:
  assumes "lineStarts sf = computeLineStarts (sourceText sf)"
  shows "(2 \<le> length (typeDirectivesOn sf l) \<longrightarrow>
            map_of (typeAssertions (parseAssertions sf)) l = None
            \<and> count_list (duplicates (parseAssertions sf)) l = 1)
       \<and> (2 \<le> errorDirectivesOn sf l \<longrightarrow>
            l \<in> set (errorLines (parseAssertions sf))
            \<and> count_list (duplicates (parseAssertions sf)) l = 1)
       \<and> length (typeDirectivesOn sf l) + errorDirectivesOn sf l \<le> 2"
proof -
  note two = at_most_two_directives [OF assms, of l]
  have one: "map_of (typeAssertions (parseAssertions sf)) l = None
      \<and> count_list (duplicates (parseAssertions sf)) l = 1"
    if "2 \<le> length (typeDirectivesOn sf l)"
  proof -
    from that two have len: "length (typeDirectivesOn sf l) = 2" and e: "errorDirectivesOn sf l = 0"
      by arith+
    from len obtain a b where ab: "typeDirectivesOn sf l = [a, b]"
      by (auto simp: length_Suc_conv numeral_2_eq_2)
    show ?thesis
      by (simp add: parseAssertions_entry parseAssertions_duplicates ab e toggleAssertion_def)
  qed
  have err: "l \<in> set (errorLines (parseAssertions sf))
      \<and> count_list (duplicates (parseAssertions sf)) l = 1"
    if "2 \<le> errorDirectivesOn sf l"
  proof -
    from that two have e: "errorDirectivesOn sf l = 2" and t: "length (typeDirectivesOn sf l) = 0"
      by arith+
    show ?thesis
      using t by (simp add: parseAssertions_errorLines parseAssertions_duplicates e)
  qed
  from one err two show ?thesis by blast
qed

theorem two_or_more_directives_on_one_line_witness:
  "map_of (typeAssertions (parseAssertions (createSourceFile (''// $ExpectType a'' @ CHR 0x0A # ''foo; // $ExpectTypeSnapshot b'') []))) 1 = None
   \<and> count_list (duplicates (parseAssertions (createSourceFile (''// $ExpectType a'' @ CHR 0x0A # ''foo; // $ExpectTypeSnapshot b'') []))) 1 = 1
   \<and> 1 \<in> set (errorLines (parseAssertions (createSourceFile (''// $ExpectError'' @ CHR 0x0A # ''foo(); // $ExpectError'') [])))
   \<and> count_list (duplicates (parseAssertions (createSourceFile (''// $ExpectError'' @ CHR 0x0A # ''foo(); // $ExpectError'') []))) 1 = 1
   \<and> length (typeDirectivesOn (createSourceFile (''// $ExpectType a'' @ CHR 0x0A # ''foo; // $ExpectTypeSnapshot b'') []) 1) + errorDirectivesOn (createSourceFile (''// $ExpectType a'' @ CHR 0x0A # ''foo; // $ExpectTypeSnapshot b'') []) 1 \<le> 2"
proof -
  let ?t = "(createSourceFile (''// $ExpectType a'' @ CHR 0x0A # ''foo; // $ExpectTypeSnapshot b'') [])"
  let ?e = "(createSourceFile (''// $ExpectError'' @ CHR 0x0A # ''foo(); // $ExpectError'') [])"
  have wt: "lineStarts ?t = computeLineStarts (sourceText ?t)" by (simp add: createSourceFile_def)
  have we: "lineStarts ?e = computeLineStarts (sourceText ?e)" by (simp add: createSourceFile_def)
  have t1: "2 \<le> length (typeDirectivesOn ?t 1)" by code_simp
  have e1: "2 \<le> errorDirectivesOn ?e 1" by code_simp
  note a = two_or_more_directives_on_one_line [OF wt, of 1]
  note b = two_or_more_directives_on_one_line [OF we, of 1]
  note c1 = a [THEN conjunct1, THEN mp, OF t1]
  note c2 = b [THEN conjunct2, THEN conjunct1, THEN mp, OF e1]
  note c3 = a [THEN conjunct2, THEN conjunct2]
  from c1 c2 c3 show ?thesis by blast
qed

end
